theory Spec2Isabelle
  imports Main "HOL-Library.Word"
begin

unbundle bit_operations_syntax

section \<open>Memory and little-endian reads\<close>

text \<open>
  The C functions of \<^verbatim>\<open>sprite.c\<close> and \<^verbatim>\<open>overlay.c\<close> receive bare pointers
  (\<^verbatim>\<open>const uint8_t* rom\<close>, \<^verbatim>\<open>const uint8_t* src\<close>, \<^verbatim>\<open>uint8_t* dst\<close>) and no
  lengths. A pointer is modelled as the view of memory it opens: \<open>src k\<close> is
  \<^verbatim>\<open>src[k]\<close>. A read-only view is indexed by \<open>nat\<close>; the output buffer of the
  decompressor is indexed by \<open>int\<close>, because \<^verbatim>\<open>dst[di - off]\<close> can reach below
  \<^verbatim>\<open>dst[0]\<close> and the source does not guard it. The C \<^verbatim>\<open>int\<close> locals are
  modelled as \<open>int\<close>: every value they take stays below \<open>2^31\<close> (sizes are 24-bit,
  and the read cursor grows by at most three per output byte).
  The target (ARM11) is little-endian, so \<^verbatim>\<open>memcpy\<close> into a \<^verbatim>\<open>uint16_t\<close> or
  \<^verbatim>\<open>uint32_t\<close> is a little-endian read.
\<close>

type_synonym u8 = "8 word"
type_synonym u16 = "16 word"
type_synonym u32 = "32 word"

type_synonym mem = "nat \<Rightarrow> u8"
type_synonym buf = "int \<Rightarrow> u8"

definition offset_view :: "mem \<Rightarrow> nat \<Rightarrow> mem" where
  "offset_view m a = (\<lambda>k. m (a + k))"

definition buf_view :: "buf \<Rightarrow> mem" where
  "buf_view b = (\<lambda>k. b (int k))"

definition rd16 :: "mem \<Rightarrow> nat \<Rightarrow> u16" where
  "rd16 m a = ucast (m a) OR push_bit 8 (ucast (m (a + 1)))"

definition rd32 :: "mem \<Rightarrow> nat \<Rightarrow> u32" where
  "rd32 m a = ucast (m a) OR push_bit 8 (ucast (m (a + 1)))
              OR push_bit 16 (ucast (m (a + 2))) OR push_bit 24 (ucast (m (a + 3)))"

section \<open>LZ77 decompressor (\<^verbatim>\<open>decompLZ77\<close>, sprite.c)\<close>

text \<open>
  The innermost loop
  \<^verbatim>\<open>for (i = 0; i < len && di < size; i++) { dst[di] = dst[di - off]; di++; }\<close>.
\<close>

function lz_copy :: "int \<Rightarrow> int \<Rightarrow> int \<Rightarrow> int \<Rightarrow> int \<times> buf \<Rightarrow> int \<times> buf" where
  "lz_copy sz len off i (di, dst) =
     (if i < len \<and> di < sz
      then lz_copy sz len off (i + 1) (di + 1, dst(di := dst (di - off)))
      else (di, dst))"
  by pat_completeness auto
termination
  by (relation "measure (\<lambda>(sz, len, off, i, st). nat (len - i))") auto

declare lz_copy.simps [simp del]

text \<open>
  One chunk of a flag byte: the body of the \<^verbatim>\<open>for (bit = 7; ...)\<close> loop. The state
  is the triple of the locals \<^verbatim>\<open>si\<close>, \<^verbatim>\<open>di\<close> and the memory behind \<^verbatim>\<open>dst\<close>.
\<close>

type_synonym lz_state = "nat \<times> int \<times> buf"

definition backref_len :: "u8 \<Rightarrow> int" where
  "backref_len b1 = (drop_bit 4 (uint b1) AND 0xF) + 3"

definition backref_off :: "u8 \<Rightarrow> u8 \<Rightarrow> int" where
  "backref_off b1 b2 = (push_bit 8 (uint b1 AND 0xF) OR uint b2) + 1"

definition lz_chunk :: "mem \<Rightarrow> int \<Rightarrow> u8 \<Rightarrow> int \<Rightarrow> lz_state \<Rightarrow> lz_state" where
  "lz_chunk src sz flags b st =
     (case st of (si, di, dst) \<Rightarrow>
        if uint flags AND push_bit (nat b) 1 \<noteq> 0
        then (let b1 = src si;
                  b2 = src (si + 1);
                  len = backref_len b1;
                  off = backref_off b1 b2;
                  (di', dst') = lz_copy sz len off 0 (di, dst)
              in (si + 2, di', dst'))
        else (si + 1, di + 1, dst(di := src si)))"

function lz_bits :: "mem \<Rightarrow> int \<Rightarrow> u8 \<Rightarrow> int \<Rightarrow> lz_state \<Rightarrow> lz_state" where
  "lz_bits src sz flags b (si, di, dst) =
     (if b \<ge> 0 \<and> di < sz
      then lz_bits src sz flags (b - 1) (lz_chunk src sz flags b (si, di, dst))
      else (si, di, dst))"
  by pat_completeness auto
termination
  by (relation "measure (\<lambda>(src, sz, flags, b, st). nat (b + 1))") auto

declare lz_bits.simps [simp del]

lemma lz_copy_di_mono: "di \<le> fst (lz_copy sz len off i (di, dst))"
proof (induction sz len off i "(di, dst)" arbitrary: di dst rule: lz_copy.induct)
  case (1 sz len off i di dst)
  show ?case
  proof (cases "i < len \<and> di < sz")
    case True
    with "1" [OF True] show ?thesis
      by (subst lz_copy.simps) auto
  next
    case False
    then show ?thesis by (subst lz_copy.simps) auto
  qed
qed

lemma lz_copy_di_step:
  assumes "i < len" "di < sz"
  shows "di < fst (lz_copy sz len off i (di, dst))"
proof -
  have "di + 1 \<le> fst (lz_copy sz len off (i + 1) (di + 1, dst(di := dst (di - off))))"
    by (rule lz_copy_di_mono)
  with assms show ?thesis by (subst lz_copy.simps) auto
qed

lemma lz_copy_di_le: "di \<le> sz \<Longrightarrow> fst (lz_copy sz len off i (di, dst)) \<le> sz"
proof (induction sz len off i "(di, dst)" arbitrary: di dst rule: lz_copy.induct)
  case (1 sz len off i di dst)
  show ?case
  proof (cases "i < len \<and> di < sz")
    case True
    with "1.hyps" [OF True] show ?thesis
      by (subst lz_copy.simps) auto
  next
    case False
    with "1.prems" show ?thesis by (subst lz_copy.simps) auto
  qed
qed

lemma lz_chunk_di_step:
  assumes "di < sz"
  shows "di < fst (snd (lz_chunk src sz flags b (si, di, dst)))"
proof (cases "uint flags AND push_bit (nat b) 1 \<noteq> 0")
  case True
  let ?len = "backref_len (src si)"
  let ?off = "backref_off (src si) (src (si + 1))"
  have "0 \<le> drop_bit 4 (uint (src si)) AND 0xF"
    by simp
  then have "0 < ?len" unfolding backref_len_def by linarith
  then have "di < fst (lz_copy sz ?len ?off 0 (di, dst))"
    using assms by (rule lz_copy_di_step)
  with True show ?thesis
    by (simp add: lz_chunk_def Let_def split_beta)
next
  case False
  then show ?thesis by (simp add: lz_chunk_def)
qed

lemma lz_chunk_di_le:
  assumes "di \<le> sz" "di < sz"
  shows "fst (snd (lz_chunk src sz flags b (si, di, dst))) \<le> sz"
  using assms lz_copy_di_le [of di sz]
  by (simp add: lz_chunk_def Let_def split_beta)

lemma lz_bits_di_mono: "di \<le> fst (snd (lz_bits src sz flags b (si, di, dst)))"
proof (induction src sz flags b "(si, di, dst)" arbitrary: si di dst rule: lz_bits.induct)
  case (1 src sz flags b si di dst)
  show ?case
  proof (cases "b \<ge> 0 \<and> di < sz")
    case True
    obtain si' di' dst' where c: "lz_chunk src sz flags b (si, di, dst) = (si', di', dst')"
      by (cases "lz_chunk src sz flags b (si, di, dst)") auto
    have "di < di'" using lz_chunk_di_step [of di sz src flags b si dst] True c by simp
    moreover have "di' \<le> fst (snd (lz_bits src sz flags (b - 1) (si', di', dst')))"
      using "1" [OF True c] .
    ultimately show ?thesis using True c
      by (subst lz_bits.simps) auto
  next
    case False
    then show ?thesis by (subst lz_bits.simps) auto
  qed
qed

lemma lz_bits_di_step:
  assumes "0 \<le> b" "di < sz"
  shows "di < fst (snd (lz_bits src sz flags b (si, di, dst)))"
proof -
  obtain si' di' dst' where c: "lz_chunk src sz flags b (si, di, dst) = (si', di', dst')"
    by (cases "lz_chunk src sz flags b (si, di, dst)") auto
  have "di < di'" using lz_chunk_di_step [of di sz src flags b si dst] assms c by simp
  moreover have "di' \<le> fst (snd (lz_bits src sz flags (b - 1) (si', di', dst')))"
    by (rule lz_bits_di_mono)
  ultimately show ?thesis using assms c
    by (subst lz_bits.simps) auto
qed

text \<open>The outer loop \<^verbatim>\<open>while (di < size) { flags = src[si++]; for (bit = 7; ...) }\<close>.\<close>

function lz_while :: "mem \<Rightarrow> int \<Rightarrow> lz_state \<Rightarrow> lz_state" where
  "lz_while src sz (si, di, dst) =
     (if di < sz
      then lz_while src sz (lz_bits src sz (src si) 7 (si + 1, di, dst))
      else (si, di, dst))"
  by pat_completeness auto
termination
proof (relation "measure (\<lambda>(src, sz, si, di, dst). nat (sz - di))")
  show "wf (measure (\<lambda>(src, sz, si, di, dst). nat (sz - di)))" by simp
next
  fix src :: mem and sz :: int and si :: nat and di :: int and dst :: buf
  assume lt: "di < sz"
  obtain si' di' dst' where r: "lz_bits src sz (src si) 7 (si + 1, di, dst) = (si', di', dst')"
    by (cases "lz_bits src sz (src si) 7 (si + 1, di, dst)") auto
  have "di < di'"
    using lz_bits_di_step [of 7 di sz src "src si" "si + 1" dst] lt r by simp
  with lt r
  show "((src, sz, lz_bits src sz (src si) 7 (si + 1, di, dst)), (src, sz, si, di, dst))
          \<in> measure (\<lambda>(src, sz, si, di, dst). nat (sz - di))"
    by simp
qed

declare lz_while.simps [simp del]

text \<open>
  \<^verbatim>\<open>decompLZ77(src, dst, maxOut)\<close>: the returned \<^verbatim>\<open>int\<close> and the memory behind
  \<^verbatim>\<open>dst\<close> afterwards. \<open>decompLZ77_locals\<close> is the same run with the final values of
  the locals \<^verbatim>\<open>si\<close> and \<^verbatim>\<open>di\<close> kept; at the two early returns they are not
  yet assigned, and the model gives 0 for them.
\<close>

definition lz_header :: "mem \<Rightarrow> u32" where
  "lz_header src = rd32 src 0"

definition lz_size :: "mem \<Rightarrow> int" where
  "lz_size src = uint (drop_bit 8 (lz_header src) AND 0x00FFFFFF)"

definition decompLZ77_locals :: "mem \<Rightarrow> buf \<Rightarrow> int \<Rightarrow> int \<times> lz_state" where
  "decompLZ77_locals src dst maxOut =
     (if lz_header src AND 0xFF \<noteq> 0x10 then (0, (0, 0, dst))
      else if lz_size src > maxOut then (0, (0, 0, dst))
      else (lz_size src, lz_while src (lz_size src) (4, 0, dst)))"

definition decompLZ77 :: "mem \<Rightarrow> buf \<Rightarrow> int \<Rightarrow> int \<times> buf" where
  "decompLZ77 src dst maxOut =
     (case decompLZ77_locals src dst maxOut of (r, si, di, dst') \<Rightarrow> (r, dst'))"

subsection \<open>Header fields\<close>

lemma bit_u8_bound: "bit (a::u8) n \<Longrightarrow> n < 8"
  by (auto dest: bit_imp_le_length)

lemma rd32_byte0: "rd32 m a AND 0xFF = ucast (m a)"
proof -
  have m: "(0xFF :: u32) = mask 8" by (simp add: mask_eq_exp_minus_1)
  show ?thesis
    unfolding rd32_def m
    by (rule bit_word_eqI) (auto simp: bit_simps dest: bit_u8_bound)
qed

lemma rd32_hi24:
  "drop_bit 8 (rd32 m a) AND 0xFFFFFF =
     ucast (m (a + 1)) OR push_bit 8 (ucast (m (a + 2))) OR push_bit 16 (ucast (m (a + 3)))"
proof -
  have m: "(0xFFFFFF :: u32) = mask 24" by (simp add: mask_eq_exp_minus_1)
  show ?thesis
    unfolding rd32_def m
    by (rule bit_word_eqI) (auto simp: bit_simps dest: bit_u8_bound)
qed

lemma le24_value:
  "uint ((ucast (b::u8) OR push_bit 8 (ucast (c::u8)) OR push_bit 16 (ucast (d::u8))) :: u32)
     = uint b + 256 * uint c + 65536 * uint d"
proof -
  have 1: "(push_bit 8 (ucast c) OR push_bit 16 (ucast d) :: u32)
             = push_bit 8 (ucast c) + push_bit 16 (ucast d)"
    by (rule disjunctive_add [symmetric]) (auto simp: bit_simps dest: bit_u8_bound)
  have 2: "(ucast b OR (push_bit 8 (ucast c) + push_bit 16 (ucast d)) :: u32)
             = ucast b + (push_bit 8 (ucast c) + push_bit 16 (ucast d))"
    unfolding 1 [symmetric]
    by (rule disjunctive_add [symmetric]) (auto simp: bit_simps dest: bit_u8_bound)
  have b: "uint b < 256" "uint c < 256" "uint d < 256" "0 \<le> uint b" "0 \<le> uint c" "0 \<le> uint d"
    using uint_lt2p [of b] uint_lt2p [of c] uint_lt2p [of d] by simp_all
  have u: "uint (ucast b :: u32) = uint b" "uint (ucast c :: u32) = uint c"
    "uint (ucast d :: u32) = uint d"
    by (simp_all add: uint_up_ucast is_up)
  show ?thesis
    unfolding 1 2 using b
    by (simp add: push_bit_eq_mult uint_word_ariths u take_bit_eq_mod)
qed

lemma lz_header_byte0: "(lz_header src AND 0xFF = 0x10) = (src 0 = 0x10)"
  by (simp add: lz_header_def rd32_byte0 word_uint_eq_iff uint_up_ucast is_up)

lemma lz_size_bytes:
  "lz_size src = uint (src 1) + 256 * uint (src 2) + 65536 * uint (src 3)"
  unfolding lz_size_def lz_header_def rd32_hi24 le24_value by (simp add: numeral_2_eq_2)

lemma lz_size_nonneg: "0 \<le> lz_size src"
  by (simp add: lz_size_def)

subsection \<open>The copy loop\<close>

lemma lz_copy_frame_lo:
  "j < di \<or> sz \<le> j \<Longrightarrow> snd (lz_copy sz len off i (di, dst)) j = dst j"
proof (induction sz len off i "(di, dst)" arbitrary: di dst rule: lz_copy.induct)
  case (1 sz len off i di dst)
  show ?case
  proof (cases "i < len \<and> di < sz")
    case True
    have "snd (lz_copy sz len off (i + 1) (di + 1, dst(di := dst (di - off)))) j
            = (dst(di := dst (di - off))) j"
      using "1.hyps" [OF True] "1.prems" by auto
    with True "1.prems" show ?thesis
      by (subst lz_copy.simps) auto
  next
    case False
    then show ?thesis by (subst lz_copy.simps) auto
  qed
qed

lemma lz_copy_frame_hi:
  "fst (lz_copy sz len off i (di, dst)) \<le> j \<Longrightarrow> snd (lz_copy sz len off i (di, dst)) j = dst j"
proof (induction sz len off i "(di, dst)" arbitrary: di dst rule: lz_copy.induct)
  case (1 sz len off i di dst)
  show ?case
  proof (cases "i < len \<and> di < sz")
    case True
    let ?R = "lz_copy sz len off (i + 1) (di + 1, dst(di := dst (di - off)))"
    have eq: "lz_copy sz len off i (di, dst) = ?R"
      using True by (subst lz_copy.simps) auto
    have "di + 1 \<le> fst ?R" by (rule lz_copy_di_mono)
    with "1.prems" eq have "di < j" by simp
    moreover have "snd ?R j = (dst(di := dst (di - off))) j"
      using "1.hyps" [OF True] "1.prems" eq by simp
    ultimately show ?thesis using eq by simp
  next
    case False
    then show ?thesis by (subst lz_copy.simps) auto
  qed
qed

lemma lz_copy_count:
  "fst (lz_copy sz len off i (di, dst)) = di + max 0 (min (len - i) (sz - di))"
proof (induction sz len off i "(di, dst)" arbitrary: di dst rule: lz_copy.induct)
  case (1 sz len off i di dst)
  show ?case
  proof (cases "i < len \<and> di < sz")
    case True
    with "1.hyps" [OF True] show ?thesis
      by (subst lz_copy.simps) auto
  next
    case False
    then show ?thesis by (subst lz_copy.simps) auto
  qed
qed

lemma lz_copy_rereads:
  "0 < off \<Longrightarrow> di \<le> j \<Longrightarrow> j < fst (lz_copy sz len off i (di, dst)) \<Longrightarrow>
     snd (lz_copy sz len off i (di, dst)) j = snd (lz_copy sz len off i (di, dst)) (j - off)"
proof (induction sz len off i "(di, dst)" arbitrary: di dst rule: lz_copy.induct)
  case (1 sz len off i di dst)
  show ?case
  proof (cases "i < len \<and> di < sz")
    case True
    let ?d1 = "dst(di := dst (di - off))"
    let ?R = "lz_copy sz len off (i + 1) (di + 1, ?d1)"
    have eq: "lz_copy sz len off i (di, dst) = ?R"
      using True by (subst lz_copy.simps) auto
    show ?thesis
    proof (cases "j = di")
      case True
      have "snd ?R di = ?d1 di" by (rule lz_copy_frame_lo) simp
      moreover have "snd ?R (di - off) = ?d1 (di - off)"
        using "1.prems" by (intro lz_copy_frame_lo) simp
      ultimately show ?thesis using eq True "1.prems" by simp
    next
      case False
      with "1.prems" have "di + 1 \<le> j" by simp
      then show ?thesis using "1.hyps" [OF True] "1.prems" eq by simp
    qed
  next
    case False
    then have "lz_copy sz len off i (di, dst) = (di, dst)"
      by (subst lz_copy.simps) auto
    with "1.prems" show ?thesis by simp
  qed
qed

lemma lz_copy_periodic:
  assumes off: "0 < off"
  shows "di + int k < fst (lz_copy sz len off i (di, dst)) \<Longrightarrow>
         snd (lz_copy sz len off i (di, dst)) (di + int k) = dst (di - off + int k mod off)"
proof (induction k rule: less_induct)
  case (less k)
  let ?R = "lz_copy sz len off i (di, dst)"
  have step: "snd ?R (di + int k) = snd ?R (di + int k - off)"
    using off less.prems by (intro lz_copy_rereads) simp_all
  show ?case
  proof (cases "int k < off")
    case True
    then have "snd ?R (di + int k - off) = dst (di + int k - off)"
      by (intro lz_copy_frame_lo) simp
    with step True show ?thesis by (simp add: algebra_simps)
  next
    case False
    define k' where "k' = nat (int k - off)"
    have k': "int k' = int k - off" "k' < k"
      using False off by (simp_all add: k'_def)
    have "snd ?R (di + int k') = dst (di - off + int k' mod off)"
      using less.IH [OF k'(2)] less.prems k'(1) off by simp
    moreover have "int k' mod off = int k mod off"
      using k'(1) by simp
    ultimately show ?thesis using step k'(1) by (simp add: algebra_simps)
  qed
qed

subsection \<open>Chunks, flag bytes and the outer loop\<close>

lemma lz_chunk_frame:
  assumes "j < di \<or> sz \<le> j" "di < sz"
  shows "snd (snd (lz_chunk src sz flags b (si, di, dst))) j = dst j"
  using assms lz_copy_frame_lo [of j di sz]
  by (auto simp: lz_chunk_def Let_def split_beta)

lemma lz_chunk_si:
  "fst (lz_chunk src sz flags b (si, di, dst)) =
     (if uint flags AND push_bit (nat b) 1 \<noteq> 0 then si + 2 else si + 1)"
  by (simp add: lz_chunk_def Let_def split_beta)

lemma lz_bits_stop: "\<not> (0 \<le> b \<and> di < sz) \<Longrightarrow> lz_bits src sz flags b (si, di, dst) = (si, di, dst)"
  by (subst lz_bits.simps) auto

lemma lz_bits_step:
  "0 \<le> b \<Longrightarrow> di < sz \<Longrightarrow>
     lz_bits src sz flags b (si, di, dst) =
       lz_bits src sz flags (b - 1) (lz_chunk src sz flags b (si, di, dst))"
  by (subst lz_bits.simps) auto

lemma lz_bits_di_le:
  "di \<le> sz \<Longrightarrow> fst (snd (lz_bits src sz flags b (si, di, dst))) \<le> sz"
proof (induction src sz flags b "(si, di, dst)" arbitrary: si di dst rule: lz_bits.induct)
  case (1 src sz flags b si di dst)
  show ?case
  proof (cases "0 \<le> b \<and> di < sz")
    case True
    obtain si' di' dst' where c: "lz_chunk src sz flags b (si, di, dst) = (si', di', dst')"
      by (cases "lz_chunk src sz flags b (si, di, dst)") auto
    have "di' \<le> sz"
      using lz_chunk_di_le [of di sz src flags b si dst] True c by simp
    then have "fst (snd (lz_bits src sz flags (b - 1) (si', di', dst'))) \<le> sz"
      using "1.hyps" True c by simp
    then show ?thesis using True c by (simp add: lz_bits_step)
  next
    case False
    with "1.prems" show ?thesis by (simp add: lz_bits_stop)
  qed
qed

lemma lz_bits_frame:
  "j < di \<or> sz \<le> j \<Longrightarrow> snd (snd (lz_bits src sz flags b (si, di, dst))) j = dst j"
proof (induction src sz flags b "(si, di, dst)" arbitrary: si di dst rule: lz_bits.induct)
  case (1 src sz flags b si di dst)
  show ?case
  proof (cases "0 \<le> b \<and> di < sz")
    case True
    obtain si' di' dst' where c: "lz_chunk src sz flags b (si, di, dst) = (si', di', dst')"
      by (cases "lz_chunk src sz flags b (si, di, dst)") auto
    have d: "di < di'"
      using lz_chunk_di_step [of di sz src flags b si dst] True c by simp
    have f: "dst' j = dst j"
      using lz_chunk_frame [of j di sz src flags b si dst] "1.prems" True c by simp
    have "snd (snd (lz_bits src sz flags (b - 1) (si', di', dst'))) j = dst' j"
      using "1.hyps" True c d "1.prems" by auto
    with f show ?thesis using True c by (simp add: lz_bits_step)
  next
    case False
    then show ?thesis by (simp add: lz_bits_stop)
  qed
qed

lemma lz_bits_si_mono: "si \<le> fst (lz_bits src sz flags b (si, di, dst))"
proof (induction src sz flags b "(si, di, dst)" arbitrary: si di dst rule: lz_bits.induct)
  case (1 src sz flags b si di dst)
  show ?case
  proof (cases "0 \<le> b \<and> di < sz")
    case True
    obtain si' di' dst' where c: "lz_chunk src sz flags b (si, di, dst) = (si', di', dst')"
      by (cases "lz_chunk src sz flags b (si, di, dst)") auto
    have "si \<le> si'"
      using lz_chunk_si [of src sz flags b si di dst] c by (simp split: if_splits)
    moreover have "si' \<le> fst (lz_bits src sz flags (b - 1) (si', di', dst'))"
      using "1.hyps" True c by simp
    ultimately show ?thesis using True c by (simp add: lz_bits_step)
  next
    case False
    then show ?thesis by (simp add: lz_bits_stop)
  qed
qed

lemma lz_while_stop: "\<not> di < sz \<Longrightarrow> lz_while src sz (si, di, dst) = (si, di, dst)"
  by (subst lz_while.simps) simp

lemma lz_while_step:
  "di < sz \<Longrightarrow> lz_while src sz (si, di, dst) =
     lz_while src sz (lz_bits src sz (src si) 7 (si + 1, di, dst))"
  by (subst lz_while.simps) simp

lemma lz_while_di:
  "di \<le> sz \<Longrightarrow> fst (snd (lz_while src sz (si, di, dst))) = sz"
proof (induction src sz "(si, di, dst)" arbitrary: si di dst rule: lz_while.induct)
  case (1 src sz si di dst)
  show ?case
  proof (cases "di < sz")
    case True
    obtain si' di' dst' where r: "lz_bits src sz (src si) 7 (si + 1, di, dst) = (si', di', dst')"
      by (cases "lz_bits src sz (src si) 7 (si + 1, di, dst)") auto
    have "di' \<le> sz"
      using lz_bits_di_le [of di sz src "src si" 7 "si + 1" dst] "1.prems" r by simp
    then have "fst (snd (lz_while src sz (si', di', dst'))) = sz"
      using "1.hyps" True r by simp
    then show ?thesis using True r by (simp add: lz_while_step)
  next
    case False
    with "1.prems" show ?thesis by (simp add: lz_while_stop)
  qed
qed

lemma lz_while_frame:
  "j < di \<or> sz \<le> j \<Longrightarrow> snd (snd (lz_while src sz (si, di, dst))) j = dst j"
proof (induction src sz "(si, di, dst)" arbitrary: si di dst rule: lz_while.induct)
  case (1 src sz si di dst)
  show ?case
  proof (cases "di < sz")
    case True
    obtain si' di' dst' where r: "lz_bits src sz (src si) 7 (si + 1, di, dst) = (si', di', dst')"
      by (cases "lz_bits src sz (src si) 7 (si + 1, di, dst)") auto
    have d: "di \<le> di'"
      using lz_bits_di_mono [of di src sz "src si" 7 "si + 1" dst] r by simp
    have f: "dst' j = dst j"
      using lz_bits_frame [of j di sz src "src si" 7 "si + 1" dst] "1.prems" r by simp
    have "snd (snd (lz_while src sz (si', di', dst'))) j = dst' j"
      using "1.hyps" True r d "1.prems" by auto
    with f show ?thesis using True r by (simp add: lz_while_step)
  next
    case False
    then show ?thesis by (simp add: lz_while_stop)
  qed
qed

lemma lz_while_si_mono: "si \<le> fst (lz_while src sz (si, di, dst))"
proof (induction src sz "(si, di, dst)" arbitrary: si di dst rule: lz_while.induct)
  case (1 src sz si di dst)
  show ?case
  proof (cases "di < sz")
    case True
    obtain si' di' dst' where r: "lz_bits src sz (src si) 7 (si + 1, di, dst) = (si', di', dst')"
      by (cases "lz_bits src sz (src si) 7 (si + 1, di, dst)") auto
    have "si + 1 \<le> si'"
      using lz_bits_si_mono [of "si + 1" src sz "src si" 7 di dst] r by simp
    moreover have "si' \<le> fst (lz_while src sz (si', di', dst'))"
      using "1.hyps" True r by simp
    ultimately show ?thesis using True r by (simp add: lz_while_step)
  next
    case False
    then show ?thesis by (simp add: lz_while_stop)
  qed
qed

subsection \<open>The stream is read only below the final read cursor\<close>

lemma lz_chunk_cong:
  assumes "\<forall>k < fst (lz_chunk src sz flags b (si, di, dst)). src' k = src k"
  shows "lz_chunk src' sz flags b (si, di, dst) = lz_chunk src sz flags b (si, di, dst)"
proof (cases "uint flags AND push_bit (nat b) 1 \<noteq> 0")
  case True
  then have "fst (lz_chunk src sz flags b (si, di, dst)) = si + 2"
    by (simp add: lz_chunk_si)
  with assms have "src' si = src si" "src' (si + 1) = src (si + 1)" by simp_all
  then show ?thesis by (simp add: lz_chunk_def)
next
  case False
  then have "fst (lz_chunk src sz flags b (si, di, dst)) = si + 1"
    by (simp add: lz_chunk_si)
  with assms have "src' si = src si" by simp
  with False show ?thesis by (simp add: lz_chunk_def)
qed

lemma lz_bits_cong:
  "\<forall>k < fst (lz_bits src sz flags b (si, di, dst)). src' k = src k \<Longrightarrow>
     lz_bits src' sz flags b (si, di, dst) = lz_bits src sz flags b (si, di, dst)"
proof (induction src sz flags b "(si, di, dst)" arbitrary: si di dst rule: lz_bits.induct)
  case (1 src sz flags b si di dst)
  show ?case
  proof (cases "0 \<le> b \<and> di < sz")
    case True
    obtain si' di' dst' where c: "lz_chunk src sz flags b (si, di, dst) = (si', di', dst')"
      by (cases "lz_chunk src sz flags b (si, di, dst)") auto
    let ?F = "lz_bits src sz flags (b - 1) (si', di', dst')"
    have F: "lz_bits src sz flags b (si, di, dst) = ?F"
      using True c by (simp add: lz_bits_step)
    have "si' \<le> fst ?F" by (rule lz_bits_si_mono)
    with "1.prems" F c have pre: "\<forall>k < fst (lz_chunk src sz flags b (si, di, dst)). src' k = src k"
      by simp
    have c': "lz_chunk src' sz flags b (si, di, dst) = (si', di', dst')"
      using lz_chunk_cong [OF pre] c by simp
    have "lz_bits src' sz flags (b - 1) (si', di', dst') = ?F"
      using "1.hyps" True c "1.prems" F by simp
    with c' F True show ?thesis by (simp add: lz_bits_step)
  next
    case False
    then show ?thesis by (simp add: lz_bits_stop)
  qed
qed

lemma lz_while_cong:
  "\<forall>k < fst (lz_while src sz (si, di, dst)). src' k = src k \<Longrightarrow>
     lz_while src' sz (si, di, dst) = lz_while src sz (si, di, dst)"
proof (induction src sz "(si, di, dst)" arbitrary: si di dst rule: lz_while.induct)
  case (1 src sz si di dst)
  show ?case
  proof (cases "di < sz")
    case True
    obtain si' di' dst' where r: "lz_bits src sz (src si) 7 (si + 1, di, dst) = (si', di', dst')"
      by (cases "lz_bits src sz (src si) 7 (si + 1, di, dst)") auto
    let ?F = "lz_while src sz (si', di', dst')"
    have F: "lz_while src sz (si, di, dst) = ?F"
      using True r by (simp add: lz_while_step)
    have m1: "si + 1 \<le> si'"
      using lz_bits_si_mono [of "si + 1" src sz "src si" 7 di dst] r by simp
    have m2: "si' \<le> fst ?F" by (rule lz_while_si_mono)
    have fl: "src' si = src si" using "1.prems" F m1 m2 by simp
    have pre: "\<forall>k < fst (lz_bits src sz (src si) 7 (si + 1, di, dst)). src' k = src k"
      using "1.prems" F m2 r by simp
    have r': "lz_bits src' sz (src' si) 7 (si + 1, di, dst) = (si', di', dst')"
      using lz_bits_cong [OF pre] r fl by simp
    have "lz_while src' sz (si', di', dst') = ?F"
      using "1.hyps" True r "1.prems" F by simp
    with r' F True show ?thesis by (simp add: lz_while_step)
  next
    case False
    then show ?thesis by (simp add: lz_while_stop)
  qed
qed

definition mem_of_list :: "u8 list \<Rightarrow> mem" where
  "mem_of_list xs = (\<lambda>k. if k < length xs then xs ! k else 0)"

definition zero_buf :: buf where
  "zero_buf = (\<lambda>j. 0)"

definition lz_demo :: mem where
  "lz_demo = mem_of_list [0x10, 5, 0, 0, 0x40, 0x41, 0x10, 0x00, 0xFF, 0xFF]"


lemma backref_len_range: "3 \<le> backref_len b1 \<and> backref_len b1 \<le> 18"
proof -
  have "0 \<le> drop_bit 4 (uint b1) AND 0xF" by simp
  moreover have "drop_bit 4 (uint b1) AND 0xF \<le> 0xF"
    by (rule AND_upper2) simp
  ultimately show ?thesis by (simp add: backref_len_def)
qed

lemma backref_off_range: "1 \<le> backref_off b1 b2 \<and> backref_off b1 b2 \<le> 4096"
proof -
  have a: "0 \<le> uint b1 AND 0xF" by simp
  have b: "uint b1 AND 0xF \<le> 0xF" by (rule AND_upper2) simp
  have p: "push_bit 8 (uint b1 AND 0xF) < 2 ^ 12" "0 \<le> push_bit 8 (uint b1 AND 0xF)"
    using a b by (simp_all add: push_bit_eq_mult)
  have u: "uint b2 < 2 ^ 12" "0 \<le> uint b2"
    using uint_lt2p [of b2] by simp_all
  have "push_bit 8 (uint b1 AND 0xF) OR uint b2 < 2 ^ 12"
    using p u by (intro OR_upper) simp_all
  moreover have "0 \<le> push_bit 8 (uint b1 AND 0xF) OR uint b2"
    using p(2) u(2) by simp
  ultimately show ?thesis by (simp add: backref_off_def)
qed


subsection \<open>Results on the decompressor\<close>

lemma decompLZ77_locals_ok:
  assumes "src 0 = 0x10" "lz_size src \<le> maxOut"
  shows "decompLZ77_locals src dst maxOut = (lz_size src, lz_while src (lz_size src) (4, 0, dst))"
  using assms lz_header_byte0 [of src] by (simp add: decompLZ77_locals_def)

lemma lz_header_cong: "\<forall>k<4. src' k = src k \<Longrightarrow> lz_header src' = lz_header src"
  by (simp add: lz_header_def rd32_def)

subsection \<open>A reference decoder on lists\<close>

text \<open>
  The format as the specification describes it, written on lists and independently of the
  C loops: bytes 1 to 3 of the header are the declared size; the body is a sequence of flag
  bytes, each governing up to eight chunks, most significant bit first; a clear bit copies
  one literal byte of the stream to the output; a set bit consumes two bytes of the stream,
  a length in 3..18 and a backward offset in 1..4096, and appends that many bytes, each the
  byte \<open>offset\<close> positions before the end of the output as it stands, one byte at a time.
  Decoding stops as soon as the output has the declared size, even in the middle of a flag
  byte. The packing of length and offset is the one of the stream format: the high nibble
  of the first byte is the length minus 3, the low nibble and the second byte are the
  offset minus 1.
\<close>

definition ref_size :: "mem \<Rightarrow> nat" where
  "ref_size src = unat (src 1) + 256 * unat (src 2) + 65536 * unat (src 3)"

definition ref_len :: "u8 \<Rightarrow> nat" where
  "ref_len b1 = unat b1 div 16 + 3"

definition ref_off :: "u8 \<Rightarrow> u8 \<Rightarrow> nat" where
  "ref_off b1 b2 = (unat b1 mod 16) * 256 + unat b2 + 1"

text \<open>
  The byte \<open>off\<close> positions before the end of the output. An offset that reaches before
  the start of the output is not guarded by the format; the reference then takes what the
  memory before the output buffer holds (\<open>pre\<close>), as a decoder writing into a buffer does.
\<close>

definition ref_back :: "buf \<Rightarrow> nat \<Rightarrow> u8 list \<Rightarrow> u8" where
  "ref_back pre off out =
     (if off \<le> length out then out ! (length out - off) else pre (int (length out) - int off))"

fun ref_copy :: "buf \<Rightarrow> nat \<Rightarrow> nat \<Rightarrow> u8 list \<Rightarrow> u8 list" where
  "ref_copy pre off 0 out = out"
| "ref_copy pre off (Suc n) out = ref_copy pre off n (out @ [ref_back pre off out])"

lemma ref_copy_length: "length (ref_copy pre off n out) = length out + n"
  by (induction n arbitrary: out) simp_all

lemma ref_len_ge: "3 \<le> ref_len b1"
  by (simp add: ref_len_def)

text \<open>
  \<open>lz_reference_from src pre sz si nbits flags out\<close>: \<open>si\<close> is the read position,
  \<open>nbits\<close> the number of bits of the current flag byte \<open>flags\<close> not yet consumed, \<open>out\<close>
  the output so far. The result is the final read position and the output.
\<close>

function lz_reference_from ::
  "mem \<Rightarrow> buf \<Rightarrow> nat \<Rightarrow> nat \<Rightarrow> nat \<Rightarrow> u8 \<Rightarrow> u8 list \<Rightarrow> nat \<times> u8 list" where
  "lz_reference_from src pre sz si nbits flags out =
     (if sz \<le> length out then (si, out)
      else if nbits = 0 then lz_reference_from src pre sz (si + 1) 8 (src si) out
      else if bit flags (nbits - 1)
      then lz_reference_from src pre sz (si + 2) (nbits - 1) flags
             (ref_copy pre (ref_off (src si) (src (si + 1)))
                (min (ref_len (src si)) (sz - length out)) out)
      else lz_reference_from src pre sz (si + 1) (nbits - 1) flags (out @ [src si]))"
  by pat_completeness auto
termination
  by (relation "measure (\<lambda>(src, pre, sz, si, nbits, flags, out).
         2 * (sz - length out) + (if nbits = 0 then 1 else 0))")
     (auto simp: ref_copy_length ref_len_def)

declare lz_reference_from.simps [simp del]

definition lz_reference :: "mem \<Rightarrow> buf \<Rightarrow> nat \<times> u8 list" where
  "lz_reference src pre = lz_reference_from src pre (ref_size src) 4 0 0 []"

lemma ref_size_eq: "int (ref_size src) = lz_size src"
  by (simp add: ref_size_def lz_size_bytes)

lemma int_and_15: "(x::int) AND 0xF = x mod 16"
proof -
  have m: "(0xF :: int) = mask 4" by (simp add: mask_eq_exp_minus_1)
  show ?thesis unfolding m by (simp add: take_bit_eq_mask [symmetric] take_bit_eq_mod)
qed

lemma ref_len_eq: "int (ref_len b1) = backref_len b1"
proof -
  define x where "x = uint b1"
  have "0 \<le> x" "x < 256" using uint_lt2p [of b1] by (simp_all add: x_def)
  then have "(x div 16) mod 16 = x div 16" by simp
  then show ?thesis
    by (simp add: ref_len_def backref_len_def int_and_15 drop_bit_eq_div zdiv_int flip: x_def)
qed

lemma ref_off_eq: "int (ref_off b1 b2) = backref_off b1 b2"
proof -
  have d: "push_bit 8 (uint b1 AND 0xF) OR uint b2 = push_bit 8 (uint b1 AND 0xF) + uint b2"
    by (rule disjunctive_add [symmetric]) (auto simp: bit_simps dest: bit_u8_bound)
  show ?thesis
    unfolding ref_off_def backref_off_def d
    by (simp add: int_and_15 push_bit_eq_mult zmod_int)
qed


text \<open>
  The relation between the C state and the reference state: the write cursor is the length
  of the output list, the buffer holds the list from index 0, and below index 0 it is
  untouched.
\<close>

definition lz_abs :: "buf \<Rightarrow> buf \<Rightarrow> int \<Rightarrow> u8 list \<Rightarrow> bool" where
  "lz_abs pre dst di out \<longleftrightarrow>
     di = int (length out) \<and> (\<forall>j<length out. dst (int j) = out ! j) \<and> (\<forall>j<0. dst j = pre j)"

lemma lz_abs_step:
  assumes "lz_abs pre dst di out"
  shows "lz_abs pre (dst(di := b)) (di + 1) (out @ [b])"
  using assms by (auto simp: lz_abs_def nth_append)

lemma lz_abs_back:
  assumes "lz_abs pre dst di out" "0 < off"
  shows "dst (di - int off) = ref_back pre off out"
proof (cases "off \<le> length out")
  case True
  then have e: "di - int off = int (length out - off)" using assms by (simp add: lz_abs_def)
  have "length out - off < length out" using True assms by simp
  then have "dst (int (length out - off)) = out ! (length out - off)"
    using assms(1) by (simp add: lz_abs_def)
  then show ?thesis using True by (simp add: e ref_back_def)
next
  case False
  then have "di - int off < 0" using assms by (simp add: lz_abs_def)
  then show ?thesis using assms False by (simp add: lz_abs_def ref_back_def)
qed

lemma lz_copy_refines:
  "lz_abs pre dst di out \<Longrightarrow> 0 < off \<Longrightarrow>
     lz_abs pre (snd (lz_copy sz len (int off) i (di, dst))) (fst (lz_copy sz len (int off) i (di, dst)))
       (ref_copy pre off (nat (min (len - i) (sz - di))) out)"
proof (induction sz len "int off" i "(di, dst)" arbitrary: di dst out rule: lz_copy.induct)
  case (1 sz len i di dst)
  show ?case
  proof (cases "i < len \<and> di < sz")
    case True
    let ?b = "dst (di - int off)"
    have b: "?b = ref_back pre off out" using "1.prems" by (rule lz_abs_back)
    have a: "lz_abs pre (dst(di := ?b)) (di + 1) (out @ [?b])"
      using "1.prems"(1) by (rule lz_abs_step)
    have n: "nat (min (len - i) (sz - di)) = Suc (nat (min (len - (i + 1)) (sz - (di + 1))))"
      using True by auto
    show ?thesis
      using "1.hyps" [OF True a "1.prems"(2)] True
      by (subst (1 2) lz_copy.simps) (simp add: n b)
  next
    case False
    then have "nat (min (len - i) (sz - di)) = 0" by auto
    with False "1.prems" show ?thesis
      by (subst (1 2) lz_copy.simps) auto
  qed
qed


lemma flag_bit: "(uint (w::u8) AND push_bit n 1 \<noteq> 0) = bit w n"
  by (auto simp: and_exp_eq_0_iff_not_bit bit_uint_iff push_bit_eq_mult dest: bit_u8_bound)

lemma lz_abs_di: "lz_abs pre dst di out \<Longrightarrow> di = int (length out)"
  by (simp add: lz_abs_def)

lemma lz_chunk_refines:
  assumes a: "lz_abs pre dst di out" and lt: "length out < sz" and b: "0 \<le> b"
  shows "\<exists>out'. lz_abs pre (snd (snd (lz_chunk src (int sz) flags b (si, di, dst))))
                   (fst (snd (lz_chunk src (int sz) flags b (si, di, dst)))) out'
           \<and> lz_reference_from src pre sz si (nat (b + 1)) flags out
               = lz_reference_from src pre sz (fst (lz_chunk src (int sz) flags b (si, di, dst)))
                   (nat b) flags out'"
proof (cases "bit flags (nat b)")
  case True
  let ?rl = "ref_len (src si)"
  let ?ro = "ref_off (src si) (src (si + 1))"
  let ?R = "lz_copy (int sz) (int ?rl) (int ?ro) 0 (di, dst)"
  let ?out = "ref_copy pre ?ro (min ?rl (sz - length out)) out"
  have f: "uint flags AND push_bit (nat b) 1 \<noteq> 0" using True by (simp only: flag_bit)
  have C: "lz_chunk src (int sz) flags b (si, di, dst) = (si + 2, fst ?R, snd ?R)"
    using f by (simp add: lz_chunk_def Let_def split_beta ref_len_eq ref_off_eq)
  have o: "0 < ?ro" by (simp add: ref_off_def)
  have n: "nat (min (int ?rl - 0) (int sz - di)) = min ?rl (sz - length out)"
    using lz_abs_di [OF a] lt by auto
  have r: "lz_abs pre (snd ?R) (fst ?R) ?out"
    using lz_copy_refines [OF a o, of "int sz" "int ?rl" 0] by (simp only: n)
  have nb: "nat (b + 1) \<noteq> 0" "nat (b + 1) - 1 = nat b" using b by auto
  have "lz_reference_from src pre sz si (nat (b + 1)) flags out
          = lz_reference_from src pre sz (si + 2) (nat b) flags ?out"
    using lt True nb by (subst lz_reference_from.simps) simp
  with r show ?thesis unfolding C by auto
next
  case False
  have f: "uint flags AND push_bit (nat b) 1 = 0"
    using False flag_bit [of flags "nat b"] by blast
  have C: "lz_chunk src (int sz) flags b (si, di, dst) = (si + 1, di + 1, dst(di := src si))"
    using f by (simp add: lz_chunk_def)
  have r: "lz_abs pre (dst(di := src si)) (di + 1) (out @ [src si])"
    using a by (rule lz_abs_step)
  have nb: "nat (b + 1) \<noteq> 0" "nat (b + 1) - 1 = nat b" using b by auto
  have "lz_reference_from src pre sz si (nat (b + 1)) flags out
          = lz_reference_from src pre sz (si + 1) (nat b) flags (out @ [src si])"
    using lt False nb by (subst lz_reference_from.simps) simp
  with r show ?thesis unfolding C by auto
qed

lemma lz_reference_done:
  "sz \<le> length out \<Longrightarrow> lz_reference_from src pre sz si nbits flags out = (si, out)"
  by (subst lz_reference_from.simps) simp

lemma lz_reference_flags:
  "lz_reference_from src pre sz si 0 flags out = lz_reference_from src pre sz si 0 fl out"
  by (subst (1 2) lz_reference_from.simps) simp

lemma lz_bits_refines:
  "lz_abs pre dst di out \<Longrightarrow> -1 \<le> b \<Longrightarrow>
     \<exists>out'. lz_abs pre (snd (snd (lz_bits src (int sz) flags b (si, di, dst))))
                   (fst (snd (lz_bits src (int sz) flags b (si, di, dst)))) out'
           \<and> (\<forall>fl. lz_reference_from src pre sz si (nat (b + 1)) flags out
               = lz_reference_from src pre sz (fst (lz_bits src (int sz) flags b (si, di, dst)))
                   0 fl out')"
proof (induction src "int sz" flags b "(si, di, dst)" arbitrary: si di dst out rule: lz_bits.induct)
  case (1 src flags b si di dst)
  show ?case
  proof (cases "b \<ge> 0 \<and> di < int sz")
    case True
    obtain si' di' dst' where c: "lz_chunk src (int sz) flags b (si, di, dst) = (si', di', dst')"
      by (cases "lz_chunk src (int sz) flags b (si, di, dst)") auto
    have lt: "length out < sz" using True lz_abs_di [OF "1.prems"(1)] by simp
    from lz_chunk_refines [OF "1.prems"(1) lt, of b src flags si] True c
    obtain out1 where o1: "lz_abs pre dst' di' out1"
      and r1: "lz_reference_from src pre sz si (nat (b + 1)) flags out
                 = lz_reference_from src pre sz si' (nat b) flags out1"
      by auto
    have b1: "-1 \<le> b - 1" using True by simp
    from "1.hyps" [OF True c o1 b1]
    obtain out' where o': "lz_abs pre (snd (snd (lz_bits src (int sz) flags (b - 1) (si', di', dst'))))
                   (fst (snd (lz_bits src (int sz) flags (b - 1) (si', di', dst')))) out'"
      and r': "\<forall>fl. lz_reference_from src pre sz si' (nat (b - 1 + 1)) flags out1
               = lz_reference_from src pre sz (fst (lz_bits src (int sz) flags (b - 1) (si', di', dst')))
                   0 fl out'"
      by auto
    have step: "lz_bits src (int sz) flags b (si, di, dst)
                  = lz_bits src (int sz) flags (b - 1) (si', di', dst')"
      using True c by (subst lz_bits.simps) simp
    show ?thesis
      unfolding step using o' r' r1 by auto
  next
    case False
    have stop: "lz_bits src (int sz) flags b (si, di, dst) = (si, di, dst)"
      using False by (subst lz_bits.simps) auto
    have "lz_reference_from src pre sz si (nat (b + 1)) flags out
            = lz_reference_from src pre sz si 0 fl out" for fl
    proof (cases "di < int sz")
      case True
      with False have "b < 0" by simp
      then have "nat (b + 1) = 0" by simp
      then show ?thesis by (simp add: lz_reference_flags [of src pre sz si flags out fl])
    next
      case F2: False
      then have "sz \<le> length out" using lz_abs_di [OF "1.prems"(1)] by simp
      then show ?thesis by (simp add: lz_reference_done)
    qed
    with "1.prems"(1) show ?thesis unfolding stop by auto
  qed
qed

lemma lz_while_refines:
  "lz_abs pre dst di out \<Longrightarrow>
     \<exists>out'. lz_abs pre (snd (snd (lz_while src (int sz) (si, di, dst))))
                   (fst (snd (lz_while src (int sz) (si, di, dst)))) out'
           \<and> lz_reference_from src pre sz si 0 fl out
               = (fst (lz_while src (int sz) (si, di, dst)), out')"
proof (induction src "int sz" "(si, di, dst)" arbitrary: si di dst out fl rule: lz_while.induct)
  case (1 src si di dst)
  show ?case
  proof (cases "di < int sz")
    case True
    obtain si' di' dst' where c: "lz_bits src (int sz) (src si) 7 (si + 1, di, dst) = (si', di', dst')"
      by (cases "lz_bits src (int sz) (src si) 7 (si + 1, di, dst)") auto
    have lt: "length out < sz" using True lz_abs_di [OF "1.prems"(1)] by simp
    have b7: "-1 \<le> (7::int)" by simp
    from lz_bits_refines [OF "1.prems"(1) b7, of src sz "src si" "si + 1"] c
    obtain out1 where o1: "lz_abs pre dst' di' out1"
      and r1: "\<forall>fl. lz_reference_from src pre sz (si + 1) 8 (src si) out
                 = lz_reference_from src pre sz si' 0 fl out1"
      by auto
    have u: "lz_reference_from src pre sz si 0 fl out
               = lz_reference_from src pre sz (si + 1) 8 (src si) out"
      using lt by (subst lz_reference_from.simps) simp
    from "1.hyps" [OF True c o1, of fl]
    obtain out' where o': "lz_abs pre (snd (snd (lz_while src (int sz) (si', di', dst'))))
                   (fst (snd (lz_while src (int sz) (si', di', dst')))) out'"
      and r': "lz_reference_from src pre sz si' 0 fl out1
               = (fst (lz_while src (int sz) (si', di', dst')), out')"
      by auto
    have step: "lz_while src (int sz) (si, di, dst) = lz_while src (int sz) (si', di', dst')"
      using True c by (subst lz_while.simps) simp
    show ?thesis
      unfolding step u using o' r' r1 by auto
  next
    case False
    have stop: "lz_while src (int sz) (si, di, dst) = (si, di, dst)"
      using False by (subst lz_while.simps) simp
    have "sz \<le> length out" using False lz_abs_di [OF "1.prems"(1)] by simp
    then have "lz_reference_from src pre sz si 0 fl out = (si, out)"
      by (rule lz_reference_done)
    with "1.prems"(1) show ?thesis unfolding stop by auto
  qed
qed


lemma lz_abs_empty: "lz_abs dst dst 0 []"
  by (simp add: lz_abs_def)

lemma decompLZ77_refines_reference:
  assumes "src 0 = 0x10" "lz_size src \<le> maxOut"
  shows "int (length (snd (lz_reference src dst))) = lz_size src"
    and "\<forall>j < length (snd (lz_reference src dst)).
           snd (decompLZ77 src dst maxOut) (int j) = snd (lz_reference src dst) ! j"
    and "fst (snd (decompLZ77_locals src dst maxOut)) = fst (lz_reference src dst)"
proof -
  let ?W = "lz_while src (int (ref_size src)) (4, 0, dst)"
  have loc: "decompLZ77_locals src dst maxOut = (lz_size src, ?W)"
    using decompLZ77_locals_ok [OF assms] by (simp add: ref_size_eq)
  from lz_while_refines [OF lz_abs_empty, of dst src "ref_size src" 4 0]
  obtain out where a: "lz_abs dst (snd (snd ?W)) (fst (snd ?W)) out"
    and r: "lz_reference src dst = (fst ?W, out)"
    unfolding lz_reference_def by auto
  have "fst (snd ?W) = int (ref_size src)"
    by (rule lz_while_di) simp
  then have len: "int (length out) = int (ref_size src)"
    using lz_abs_di [OF a] by simp
  show "int (length (snd (lz_reference src dst))) = lz_size src"
    using len by (simp add: r ref_size_eq)
  show "\<forall>j < length (snd (lz_reference src dst)).
           snd (decompLZ77 src dst maxOut) (int j) = snd (lz_reference src dst) ! j"
    using a by (simp add: r decompLZ77_def loc split_beta lz_abs_def)
  show "fst (snd (decompLZ77_locals src dst maxOut)) = fst (lz_reference src dst)"
    by (simp add: r loc)
qed

lemma lz_demo_bytes:
  "lz_demo (Suc 0) = 5" "lz_demo 2 = 0" "lz_demo 3 = 0" "lz_demo 4 = 0x40" "lz_demo 5 = 0x41"
  "lz_demo 6 = 0x10" "lz_demo 7 = 0x00"
  by (simp_all add: lz_demo_def mem_of_list_def)

lemma lz_demo_reference: "lz_reference lz_demo zero_buf = (8, [0x41, 0x41, 0x41, 0x41, 0x41])"
proof -
  have sz: "ref_size lz_demo = 5" by (simp add: ref_size_def lz_demo_bytes)
  have s0: "lz_reference_from lz_demo zero_buf 5 4 0 0 []
              = lz_reference_from lz_demo zero_buf 5 5 8 0x40 []"
    by (subst lz_reference_from.simps) (simp add: lz_demo_bytes)
  have s1: "lz_reference_from lz_demo zero_buf 5 5 8 0x40 []
              = lz_reference_from lz_demo zero_buf 5 6 7 0x40 [0x41]"
    by (subst lz_reference_from.simps) (simp add: lz_demo_bytes)
  have n: "min (ref_len (lz_demo 6)) 4 = Suc (Suc (Suc (Suc 0)))"
    by (simp add: ref_len_def lz_demo_bytes)
  have o: "ref_off (lz_demo 6) (lz_demo 7) = Suc 0"
    by (simp add: ref_off_def lz_demo_bytes)
  have c: "ref_copy zero_buf (Suc 0) (Suc (Suc (Suc (Suc 0)))) [0x41]
             = [0x41, 0x41, 0x41, 0x41, 0x41]"
    by (simp add: ref_back_def)
  have s2: "lz_reference_from lz_demo zero_buf 5 6 7 0x40 [0x41]
              = lz_reference_from lz_demo zero_buf 5 8 6 0x40 [0x41, 0x41, 0x41, 0x41, 0x41]"
    by (subst lz_reference_from.simps) (simp add: n o ref_back_def)
  have s3: "lz_reference_from lz_demo zero_buf 5 8 6 0x40 [0x41, 0x41, 0x41, 0x41, 0x41]
              = (8, [0x41, 0x41, 0x41, 0x41, 0x41])"
    by (rule lz_reference_done) simp
  show ?thesis
    unfolding lz_reference_def sz s0 s1 s2 s3 ..
qed

lemma lz_demo_size: "lz_size lz_demo = 5"
  by (simp add: lz_demo_def mem_of_list_def lz_size_def lz_header_def rd32_def)

text \<open>
  C4. Whenever byte 0 of the input is the marker \<open>0x10\<close> and the declared size (bytes 1 to 3,
  little-endian) does not exceed \<open>maxOut\<close>, \<open>decompLZ77\<close> returns the declared size and the
  write cursor \<open>di\<close> ends exactly at the declared size. The bytes it leaves in
  \<open>dst[0 .. size - 1]\<close> are, one for one, the output list of the reference decoder
  \<open>lz_reference\<close>, which has exactly the declared number of bytes, and the read cursor
  \<open>si\<close> ends where the reference decoder stopped reading: at the end of the chunk that
  completed the output, whatever bits of the current flag byte remain. Only the bytes
  \<open>dst[0 .. size - 1]\<close> are written. Once \<open>di\<close> has reached the size, neither the chunk
  loop of a flag byte nor the outer loop reads anything more: they return their state,
  read cursor included, as it is, whatever bit of the flag byte is next and whatever the
  stream holds; and the whole run depends on the stream only below the final read cursor.
\<close>

theorem decompLZ77_declared_size:
  assumes "src 0 = 0x10" and "lz_size src \<le> maxOut"
  shows "lz_size src = uint (src 1) + 256 * uint (src 2) + 65536 * uint (src 3)
       \<and> fst (decompLZ77 src dst maxOut) = lz_size src
       \<and> fst (snd (snd (decompLZ77_locals src dst maxOut))) = lz_size src
       \<and> int (length (snd (lz_reference src dst))) = lz_size src
       \<and> (\<forall>j < length (snd (lz_reference src dst)).
             snd (decompLZ77 src dst maxOut) (int j) = snd (lz_reference src dst) ! j)
       \<and> fst (snd (decompLZ77_locals src dst maxOut)) = fst (lz_reference src dst)
       \<and> (\<forall>j. j < 0 \<or> lz_size src \<le> j \<longrightarrow> snd (decompLZ77 src dst maxOut) j = dst j)
       \<and> (\<forall>flags b si d. lz_bits src (lz_size src) flags b (si, lz_size src, d)
                           = (si, lz_size src, d))
       \<and> (\<forall>si d. lz_while src (lz_size src) (si, lz_size src, d) = (si, lz_size src, d))
       \<and> (\<forall>src'. (\<forall>k < fst (snd (decompLZ77_locals src dst maxOut)). src' k = src k)
                 \<longrightarrow> decompLZ77 src' dst maxOut = decompLZ77 src dst maxOut)"
proof -
  let ?sz = "lz_size src"
  let ?W = "lz_while src ?sz (4, 0, dst)"
  have loc: "decompLZ77_locals src dst maxOut = (?sz, ?W)"
    using assms by (rule decompLZ77_locals_ok)
  have ret: "fst (decompLZ77 src dst maxOut) = ?sz"
    by (simp add: decompLZ77_def loc split_beta)
  have di: "fst (snd ?W) = ?sz"
    by (rule lz_while_di) (rule lz_size_nonneg)
  note ref = decompLZ77_refines_reference [OF assms, of dst]
  have frame: "\<forall>j. j < 0 \<or> ?sz \<le> j \<longrightarrow> snd (decompLZ77 src dst maxOut) j = dst j"
    using lz_while_frame [of _ 0 ?sz src 4 dst]
    by (simp add: decompLZ77_def loc split_beta)
  have bits: "\<forall>flags b si d. lz_bits src ?sz flags b (si, ?sz, d) = (si, ?sz, d)"
    by (simp add: lz_bits_stop)
  have while: "\<forall>si d. lz_while src ?sz (si, ?sz, d) = (si, ?sz, d)"
    by (simp add: lz_while_stop)
  have ext: "decompLZ77 src' dst maxOut = decompLZ77 src dst maxOut"
    if agree: "\<forall>k < fst (snd (decompLZ77_locals src dst maxOut)). src' k = src k" for src'
  proof -
    have a: "\<forall>k < fst ?W. src' k = src k" using agree by (simp add: loc)
    have "4 \<le> fst ?W" by (rule lz_while_si_mono)
    with a have h4: "\<forall>k<4. src' k = src k" by simp
    then have hd: "lz_header src' = lz_header src" by (rule lz_header_cong)
    then have sz: "lz_size src' = ?sz" by (simp add: lz_size_def)
    have "src' 0 = 0x10" using h4 assms(1) by simp
    then have loc': "decompLZ77_locals src' dst maxOut = (?sz, lz_while src' ?sz (4, 0, dst))"
      using decompLZ77_locals_ok [of src' maxOut dst] assms(2) sz by simp
    have "lz_while src' ?sz (4, 0, dst) = ?W" using a by (rule lz_while_cong)
    with loc loc' show ?thesis by (simp add: decompLZ77_def)
  qed
  have di': "fst (snd (snd (decompLZ77_locals src dst maxOut))) = ?sz"
    by (simp add: loc di)
  have ext': "\<forall>src'. (\<forall>k < fst (snd (decompLZ77_locals src dst maxOut)). src' k = src k)
                 \<longrightarrow> decompLZ77 src' dst maxOut = decompLZ77 src dst maxOut"
    using ext by blast
  show ?thesis
    by (intro conjI) (rule lz_size_bytes ret di' ref frame bits while ext')+
qed

text \<open>
  The witness is \<open>lz_demo\<close>: declared size 5, flag byte \<open>0x40\<close>, the literal \<open>0x41\<close>, then
  the back-reference \<open>0x10 0x00\<close> (length 4, offset 1), which completes the output at
  bit 6 of the flag byte. The five output bytes are \<open>0x41\<close>, the read cursor ends at 8
  and the two bytes \<open>0xFF\<close> that follow in the stream are never read.
\<close>

theorem decompLZ77_declared_size_witness:
  "lz_demo 0 = 0x10 \<and> lz_size lz_demo \<le> 4096
   \<and> fst (decompLZ77 lz_demo zero_buf 4096) = 5
   \<and> fst (snd (snd (decompLZ77_locals lz_demo zero_buf 4096))) = 5
   \<and> lz_reference lz_demo zero_buf = (8, [0x41, 0x41, 0x41, 0x41, 0x41])
   \<and> snd (decompLZ77 lz_demo zero_buf 4096) 0 = 0x41
   \<and> snd (decompLZ77 lz_demo zero_buf 4096) 1 = 0x41
   \<and> snd (decompLZ77 lz_demo zero_buf 4096) 2 = 0x41
   \<and> snd (decompLZ77 lz_demo zero_buf 4096) 3 = 0x41
   \<and> snd (decompLZ77 lz_demo zero_buf 4096) 4 = 0x41
   \<and> fst (snd (decompLZ77_locals lz_demo zero_buf 4096)) = 8
   \<and> snd (decompLZ77 lz_demo zero_buf 4096) 5 = 0
   \<and> lz_bits lz_demo 5 0x40 5 (8, 5, zero_buf) = (8, 5, zero_buf)"
proof -
  have h1: "lz_demo 0 = 0x10" by (simp add: lz_demo_def mem_of_list_def)
  have h2: "lz_size lz_demo \<le> 4096" by (simp add: lz_demo_size)
  note T = decompLZ77_declared_size [OF h1 h2, of zero_buf]
  have r: "fst (decompLZ77 lz_demo zero_buf 4096) = 5"
    using T [THEN conjunct2, THEN conjunct1] by (simp only: lz_demo_size)
  have d: "fst (snd (snd (decompLZ77_locals lz_demo zero_buf 4096))) = 5"
    using T [THEN conjunct2, THEN conjunct2, THEN conjunct1] by (simp only: lz_demo_size)
  note T3 = T [THEN conjunct2, THEN conjunct2, THEN conjunct2]
  have out: "\<forall>j < length [0x41, 0x41, 0x41, 0x41, 0x41 :: u8].
               snd (decompLZ77 lz_demo zero_buf 4096) (int j)
                 = [0x41, 0x41, 0x41, 0x41, 0x41] ! j"
    using T3 [THEN conjunct2, THEN conjunct1] by (simp only: lz_demo_reference snd_conv)
  have o0: "snd (decompLZ77 lz_demo zero_buf 4096) 0 = 0x41"
    using out [THEN spec, of 0] by simp
  have o1: "snd (decompLZ77 lz_demo zero_buf 4096) 1 = 0x41"
    using out [THEN spec, of 1] by simp
  have o2: "snd (decompLZ77 lz_demo zero_buf 4096) 2 = 0x41"
    using out [THEN spec, of 2] by simp
  have o3: "snd (decompLZ77 lz_demo zero_buf 4096) 3 = 0x41"
    using out [THEN spec, of 3] by simp
  have o4: "snd (decompLZ77 lz_demo zero_buf 4096) 4 = 0x41"
    using out [THEN spec, of 4] by simp
  have si: "fst (snd (decompLZ77_locals lz_demo zero_buf 4096)) = 8"
    using T3 [THEN conjunct2, THEN conjunct2, THEN conjunct1]
    by (simp only: lz_demo_reference fst_conv)
  note T6 = T3 [THEN conjunct2, THEN conjunct2, THEN conjunct2]
  have "(5::int) < 0 \<or> lz_size lz_demo \<le> 5 \<longrightarrow>
          snd (decompLZ77 lz_demo zero_buf 4096) 5 = zero_buf 5"
    using T6 [THEN conjunct1] by (rule spec)
  then have f: "snd (decompLZ77 lz_demo zero_buf 4096) 5 = 0"
    by (simp add: lz_demo_size zero_buf_def)
  have "\<forall>flags b si d. lz_bits lz_demo 5 flags b (si, 5, d) = (si, 5, d)"
    by (rule T6 [THEN conjunct2, THEN conjunct1, unfolded lz_demo_size])
  then have b: "lz_bits lz_demo 5 0x40 5 (8, 5, zero_buf) = (8, 5, zero_buf)"
    by blast
  show ?thesis
    by (intro conjI) (rule h1 h2 r d lz_demo_reference o0 o1 o2 o3 o4 si f b)+
qed


text \<open>
  C6. If byte 0 of the input is not the marker \<open>0x10\<close>, or the declared 24-bit
  little-endian size exceeds \<open>maxOut\<close>, \<open>decompLZ77\<close> returns 0 and leaves the memory
  behind \<open>dst\<close> as it was: no byte is written, at or beyond \<open>maxOut\<close> or anywhere else.
\<close>

theorem decompLZ77_rejects:
  assumes "src 0 \<noteq> 0x10 \<or> maxOut < uint (src 1) + 256 * uint (src 2) + 65536 * uint (src 3)"
  shows "decompLZ77 src dst maxOut = (0, dst)"
  using assms lz_header_byte0 [of src] lz_size_bytes [of src]
  by (auto simp: decompLZ77_def decompLZ77_locals_def)

definition lz_bad_marker :: mem where
  "lz_bad_marker = mem_of_list [0x11, 5, 0, 0, 0x00, 0x41]"

definition lz_too_big :: mem where
  "lz_too_big = mem_of_list [0x10, 0x41, 0, 0, 0x00, 0x41]"

theorem decompLZ77_rejects_witness:
  "lz_bad_marker 0 = 0x11
   \<and> decompLZ77 lz_bad_marker zero_buf 64 = (0, zero_buf)
   \<and> lz_too_big 0 = 0x10 \<and> uint (lz_too_big 1) = 65
   \<and> decompLZ77 lz_too_big zero_buf 64 = (0, zero_buf)"
proof -
  have a: "lz_bad_marker 0 \<noteq> 0x10 \<or> 64 < uint (lz_bad_marker 1) + 256 * uint (lz_bad_marker 2)
             + 65536 * uint (lz_bad_marker 3)"
    by (simp add: lz_bad_marker_def mem_of_list_def)
  have b: "lz_too_big 0 \<noteq> 0x10 \<or> 64 < uint (lz_too_big 1) + 256 * uint (lz_too_big 2)
             + 65536 * uint (lz_too_big 3)"
    by (simp add: lz_too_big_def mem_of_list_def)
  show ?thesis
    using decompLZ77_rejects [OF a, of zero_buf] decompLZ77_rejects [OF b, of zero_buf]
    by (simp add: lz_bad_marker_def lz_too_big_def mem_of_list_def)
qed

text \<open>
  C5. A set flag bit makes \<open>lz_chunk\<close> read two bytes, a length in 3..18 and a backward
  offset in 1..4096, and copy \<open>n = min len (size - di)\<close> bytes one at a time. Every byte
  written equals the byte \<open>off\<close> positions before it in the output as it stands after the
  copy, so where \<open>off \<le> k\<close> (possible exactly when the offset is less than the length)
  byte \<open>k\<close> re-reads a byte the same copy wrote. In terms of the output before the copy,
  byte \<open>k\<close> is the old byte at \<open>di - off + k mod off\<close>: the \<open>off\<close> bytes before \<open>di\<close>
  repeated, not the old content of \<open>dst[di - off + k]\<close> that a block copy would take.
\<close>

theorem lz_chunk_backref_serial:
  assumes flag: "uint flags AND push_bit (nat b) 1 \<noteq> 0"
    and le: "di \<le> sz"
    and len: "len = backref_len (src si)"
    and off: "off = backref_off (src si) (src (si + 1))"
    and n: "n = min len (sz - di)"
    and run: "lz_chunk src sz flags b (si, di, dst) = (si', di', dst')"
  shows "3 \<le> len \<and> len \<le> 18 \<and> 1 \<le> off \<and> off \<le> 4096
       \<and> si' = si + 2 \<and> di' = di + n
       \<and> (\<forall>k. 0 \<le> k \<and> k < n \<longrightarrow>
              dst' (di + k) = dst' (di + k - off)
            \<and> dst' (di + k) = dst (di - off + k mod off))
       \<and> (\<forall>j. j < di \<or> di' \<le> j \<longrightarrow> dst' j = dst j)"
proof -
  let ?R = "lz_copy sz len off 0 (di, dst)"
  have lr: "3 \<le> len \<and> len \<le> 18" unfolding len by (rule backref_len_range)
  have orng: "1 \<le> off \<and> off \<le> 4096" unfolding off by (rule backref_off_range)
  have R: "(si', di', dst') = (si + 2, fst ?R, snd ?R)"
    using run flag by (simp add: lz_chunk_def Let_def split_beta len off)
  then have si': "si' = si + 2" and di'R: "di' = fst ?R" and dst'R: "dst' = snd ?R"
    by (simp_all add: prod_eq_iff)
  have cnt: "fst ?R = di + n"
    using lz_copy_count [of sz len off 0 di dst] lr le n by simp
  have bytes: "dst' (di + k) = dst' (di + k - off) \<and> dst' (di + k) = dst (di - off + k mod off)"
    if k: "0 \<le> k \<and> k < n" for k
  proof -
    have lt: "di + k < fst ?R" using k cnt by simp
    have a: "snd ?R (di + k) = snd ?R (di + k - off)"
      using orng k lt by (intro lz_copy_rereads) simp_all
    have "snd ?R (di + int (nat k)) = dst (di - off + int (nat k) mod off)"
      using orng k lt by (intro lz_copy_periodic) simp_all
    then have b: "snd ?R (di + k) = dst (di - off + k mod off)"
      using k by simp
    from a b show ?thesis by (simp add: dst'R)
  qed
  have frame: "dst' j = dst j" if j: "j < di \<or> di' \<le> j" for j
  proof (cases "j < di")
    case True
    then show ?thesis unfolding dst'R by (intro lz_copy_frame_lo) simp
  next
    case False
    with j have "fst ?R \<le> j" by (simp add: di'R)
    then show ?thesis unfolding dst'R by (rule lz_copy_frame_hi)
  qed
  have di': "di' = di + n" using di'R cnt by simp
  have B: "\<forall>k. 0 \<le> k \<and> k < n \<longrightarrow>
              dst' (di + k) = dst' (di + k - off)
            \<and> dst' (di + k) = dst (di - off + k mod off)"
    using bytes by blast
  have F: "\<forall>j. j < di \<or> di' \<le> j \<longrightarrow> dst' j = dst j"
    using frame by blast
  from lr orng si' di' B F show ?thesis by blast
qed

text \<open>
  The witness is the second chunk of \<open>lz_demo\<close>: after the literal \<open>0x41\<close>, the
  back-reference \<open>0x10 0x00\<close> has length 4 and offset 1. The four bytes written are all
  \<open>0x41\<close>, although the old content of \<open>dst[1]\<close> and \<open>dst[2]\<close> was 0.
\<close>

definition buf_A :: buf where
  "buf_A = zero_buf(0 := 0x41)"

definition buf_AAAAA :: buf where
  "buf_AAAAA = zero_buf(0 := 0x41, 1 := 0x41, 2 := 0x41, 3 := 0x41, 4 := 0x41)"

lemma lz_demo_chunk: "lz_chunk lz_demo 5 0x40 6 (6, 1, buf_A) = (8, 5, buf_AAAAA)"
  by (simp add: lz_chunk_def lz_demo_def mem_of_list_def backref_len_def backref_off_def
      lz_copy.simps buf_A_def buf_AAAAA_def zero_buf_def)

theorem lz_chunk_backref_serial_witness:
  "uint (0x40 :: u8) AND push_bit (nat 6) 1 \<noteq> 0
   \<and> backref_len (lz_demo 6) = 4 \<and> backref_off (lz_demo 6) (lz_demo 7) = 1
   \<and> lz_chunk lz_demo 5 0x40 6 (6, 1, buf_A) = (8, 5, buf_AAAAA)
   \<and> buf_AAAAA 3 = buf_AAAAA 2 \<and> buf_AAAAA 3 = buf_A 0 \<and> buf_AAAAA 3 = 0x41 \<and> buf_A 2 = 0"
proof -
  have flag: "uint (0x40 :: u8) AND push_bit (nat 6) 1 \<noteq> 0" by simp
  have len: "4 = backref_len (lz_demo 6)"
    by (simp add: backref_len_def lz_demo_def mem_of_list_def)
  have off: "1 = backref_off (lz_demo 6) (lz_demo (6 + 1))"
    by (simp add: backref_off_def lz_demo_def mem_of_list_def)
  have n: "(4::int) = min 4 (5 - 1)" by simp
  have le: "(1::int) \<le> 5" by simp
  note T = lz_chunk_backref_serial [OF flag le len off n lz_demo_chunk]
  have "\<forall>k. 0 \<le> k \<and> k < (4::int) \<longrightarrow>
              buf_AAAAA (1 + k) = buf_AAAAA (1 + k - 1)
            \<and> buf_AAAAA (1 + k) = buf_A (1 - 1 + k mod 1)"
    by (rule T [THEN conjunct2, THEN conjunct2, THEN conjunct2, THEN conjunct2,
                THEN conjunct2, THEN conjunct2, THEN conjunct1])
  then have "0 \<le> (2::int) \<and> (2::int) < 4 \<longrightarrow>
              buf_AAAAA (1 + 2) = buf_AAAAA (1 + 2 - 1)
            \<and> buf_AAAAA (1 + 2) = buf_A (1 - 1 + 2 mod 1)"
    by (rule spec)
  moreover have "0 \<le> (2::int) \<and> (2::int) < 4" by simp
  ultimately have q: "buf_AAAAA (1 + 2) = buf_AAAAA (1 + 2 - 1)
            \<and> buf_AAAAA (1 + 2) = buf_A (1 - 1 + 2 mod 1)"
    by (rule mp)
  have e: "(1::int) + 2 = 3" "(3::int) - 1 = 2" "(1::int) - 1 + 2 mod 1 = 0"
    by simp_all
  have b: "buf_AAAAA 3 = buf_AAAAA 2 \<and> buf_AAAAA 3 = buf_A 0"
    using q unfolding e .
  have v: "buf_AAAAA 3 = 0x41 \<and> buf_A 2 = 0"
    by (simp add: buf_AAAAA_def buf_A_def zero_buf_def)
  have off': "backref_off (lz_demo 6) (lz_demo 7) = 1" using off by simp
  have len': "backref_len (lz_demo 6) = 4" using len by simp
  from flag len' off' lz_demo_chunk b v show ?thesis by blast
qed

section \<open>Palette conversion (\<^verbatim>\<open>decodeSpriteSlot\<close>, sprite.c)\<close>

text \<open>
  The body of \<^verbatim>\<open>for (i = 1; i < 16; i++)\<close>: the three \<^verbatim>\<open>uint8_t\<close> locals
  \<^verbatim>\<open>r\<close>, \<^verbatim>\<open>g\<close>, \<^verbatim>\<open>b\<close> computed from the RGB555 value \<^verbatim>\<open>c\<close>. The operands
  are promoted to \<^verbatim>\<open>int\<close> (32 bits) and the result is truncated to 8 bits on
  assignment.
\<close>

definition chan5 :: "u16 \<Rightarrow> nat \<Rightarrow> u8" where
  "chan5 c sh = ucast (push_bit 3 (drop_bit sh (ucast c :: u32) AND 0x1F))"

definition luma :: "u8 \<Rightarrow> u8 \<Rightarrow> u8 \<Rightarrow> u8" where
  "luma r g b = ucast (drop_bit 8 ((ucast r :: u32) * 77 + ucast g * 150 + ucast b * 29))"

definition pal_rgb :: "u16 \<Rightarrow> bool \<Rightarrow> u8 \<times> u8 \<times> u8" where
  "pal_rgb c grayscale =
     (let r = chan5 c 0; g = chan5 c 5; b = chan5 c 10
      in if grayscale then (let lum = luma r g b in (lum, lum, lum)) else (r, g, b))"

definition pack_rgba :: "u8 \<times> u8 \<times> u8 \<Rightarrow> u32" where
  "pack_rgba p = (case p of (r, g, b) \<Rightarrow>
     push_bit 24 (ucast r) OR push_bit 16 (ucast g) OR push_bit 8 (ucast b) OR 0xFF)"

definition palette_entry :: "u16 \<Rightarrow> bool \<Rightarrow> u32" where
  "palette_entry c grayscale = pack_rgba (pal_rgb c grayscale)"

text \<open>The 16-entry table: entry 0 is \<open>0x00000000\<close>, entries 1 to 15 come from \<open>palSrc\<close>.\<close>

definition build_palette :: "mem \<Rightarrow> bool \<Rightarrow> u32 list" where
  "build_palette palSrc grayscale =
     0 # map (\<lambda>i. palette_entry (rd16 palSrc (i * 2)) grayscale) [1..<16]"

text \<open>The channels of a packed pixel, \<^verbatim>\<open>(R<<24) | (G<<16) | (B<<8) | A\<close>.\<close>

definition px_r :: "u32 \<Rightarrow> u8" where "px_r p = ucast (drop_bit 24 p)"
definition px_g :: "u32 \<Rightarrow> u8" where "px_g p = ucast (drop_bit 16 p)"
definition px_b :: "u32 \<Rightarrow> u8" where "px_b p = ucast (drop_bit 8 p)"
definition px_a :: "u32 \<Rightarrow> u8" where "px_a p = ucast p"


lemma and_1F_unat: "unat ((x::u32) AND 0x1F) = unat x mod 32"
proof -
  have m: "(0x1F :: u32) = mask 5" by (simp add: mask_eq_exp_minus_1)
  have "x AND 0x1F = take_bit 5 x" unfolding m by (simp add: take_bit_eq_mask)
  then have "unat (x AND 0x1F) = take_bit 5 (unat x)"
    by (simp only: unsigned_take_bit_eq)
  then show ?thesis by (simp add: take_bit_eq_mod)
qed

lemma unat_ucast_u8_u32: "unat (ucast (w::u8) :: u32) = unat w"
proof -
  have "unat w < 2 ^ 8" using unsigned_less [of w, where ?'a = nat] by simp
  then have "unat w < 2 ^ 32" by simp
  then show ?thesis by (simp add: unsigned_ucast_eq take_bit_nat_eq_self)
qed

lemma unat_ucast_u16_u32: "unat (ucast (w::u16) :: u32) = unat w"
proof -
  have "unat w < 2 ^ 16" using unsigned_less [of w, where ?'a = nat] by simp
  then have "unat w < 2 ^ 32" by simp
  then show ?thesis by (simp add: unsigned_ucast_eq take_bit_nat_eq_self)
qed

lemma unat_ucast_u32_u8: "unat (w::u32) < 256 \<Longrightarrow> unat (ucast w :: u8) = unat w"
  by (simp add: unsigned_ucast_eq take_bit_nat_eq_self)

lemma chan5_unat: "unat (chan5 c sh) = 8 * ((unat c div 2 ^ sh) mod 32)"
proof -
  let ?x = "drop_bit sh (ucast c :: u32)"
  let ?v = "(unat c div 2 ^ sh) mod 32"
  have "unat ?x = drop_bit sh (unat (ucast c :: u32))"
    by (rule unat_drop_bit_eq)
  then have "unat ?x = unat c div 2 ^ sh"
    by (simp only: unat_ucast_u16_u32 drop_bit_eq_div)
  then have a: "unat (?x AND 0x1F) = ?v"
    by (simp only: and_1F_unat)
  have lt: "?v < 32" by simp
  have "unat (push_bit 3 (?x AND 0x1F)) = (unat (?x AND 0x1F) * 8) mod 2 ^ 32"
    by (simp add: push_bit_eq_mult unat_word_ariths)
  also have "\<dots> = 8 * ?v" unfolding a using lt by simp
  finally have p: "unat (push_bit 3 (?x AND 0x1F)) = 8 * ?v" .
  have "unat (push_bit 3 (?x AND 0x1F)) < 256" unfolding p using lt by simp
  then have "unat (ucast (push_bit 3 (?x AND 0x1F)) :: u8) = 8 * ?v"
    using p by (simp only: unat_ucast_u32_u8)
  then show ?thesis by (simp only: chan5_def)
qed

lemma luma_unat: "unat (luma r g b) = (unat r * 77 + unat g * 150 + unat b * 29) div 256"
proof -
  let ?s = "unat r * 77 + unat g * 150 + unat b * 29"
  have b: "unat r < 256" "unat g < 256" "unat b < 256"
    using unsigned_less [of r, where ?'a = nat] unsigned_less [of g, where ?'a = nat]
      unsigned_less [of b, where ?'a = nat] by simp_all
  have s: "unat ((ucast r :: u32) * 77 + ucast g * 150 + ucast b * 29) = ?s"
    using b by (simp add: unat_word_ariths unat_ucast_u8_u32)
  have "unat (drop_bit 8 ((ucast r :: u32) * 77 + ucast g * 150 + ucast b * 29))
          = drop_bit 8 (unat ((ucast r :: u32) * 77 + ucast g * 150 + ucast b * 29))"
    by (rule unat_drop_bit_eq)
  then have d: "unat (drop_bit 8 ((ucast r :: u32) * 77 + ucast g * 150 + ucast b * 29))
                  = ?s div 256"
    by (simp only: s drop_bit_eq_div) simp
  have "?s div 256 < 256" using b by simp
  then have "unat (ucast (drop_bit 8 ((ucast r :: u32) * 77 + ucast g * 150 + ucast b * 29)) :: u8)
               = ?s div 256"
    using d by (simp only: unat_ucast_u32_u8)
  then show ?thesis by (simp only: luma_def)
qed

lemma px_r_pack: "px_r (pack_rgba (r, g, b)) = r"
  unfolding px_r_def pack_rgba_def
  by (simp, rule bit_word_eqI) (auto simp: bit_simps dest: bit_u8_bound)

lemma px_g_pack: "px_g (pack_rgba (r, g, b)) = g"
  unfolding px_g_def pack_rgba_def
  by (simp, rule bit_word_eqI) (auto simp: bit_simps dest: bit_u8_bound)

lemma px_b_pack: "px_b (pack_rgba (r, g, b)) = b"
  unfolding px_b_def pack_rgba_def
  by (simp, rule bit_word_eqI) (auto simp: bit_simps dest: bit_u8_bound)

lemma px_a_pack: "px_a (pack_rgba (r, g, b)) = 0xFF"
proof -
  have m: "(0xFF :: u32) = mask 8" "(0xFF :: u8) = mask 8" by (simp_all add: mask_eq_exp_minus_1)
  show ?thesis
    unfolding px_a_def pack_rgba_def m
    by (simp, rule bit_word_eqI) (auto simp: bit_simps dest: bit_u8_bound)
qed


lemma build_palette_nth:
  "1 \<le> i \<Longrightarrow> i < 16 \<Longrightarrow>
     build_palette palSrc grayscale ! i = palette_entry (rd16 palSrc (i * 2)) grayscale"
proof -
  assume i: "1 \<le> i" "i < 16"
  then obtain j where j: "i = Suc j" "j < 15" by (cases i) auto
  have "map (\<lambda>i. palette_entry (rd16 palSrc (i * 2)) grayscale) [1..<16] ! j
          = palette_entry (rd16 palSrc ([1..<16] ! j * 2)) grayscale"
    using j by (intro nth_map) simp
  also have "[1..<16] ! j = 1 + j" using j by (intro nth_upt) simp
  finally show ?thesis using j by (simp add: build_palette_def)
qed

text \<open>
  C1, as the code has it. Each of the entries 1 to 15 of the palette is the packed pixel of
  the RGB555 value read at \<open>palSrc + 2 * i\<close>; without grayscale each 8-bit channel is the
  5-bit channel shifted left by three bits, that is 8 times the channel, so its low three
  bits are 0 and nothing is replicated into them; alpha is \<open>0xFF\<close>. For the input
  \<open>0x7C00\<close> (blue all ones) the blue channel is 248 and red and green are 0.
\<close>

theorem palette_entry_shift_expansion:
  "(\<forall>i. 1 \<le> i \<and> i < 16 \<longrightarrow>
       build_palette palSrc grayscale ! i = palette_entry (rd16 palSrc (i * 2)) grayscale)
   \<and> unat (px_r (palette_entry c False)) = 8 * (unat c mod 32)
   \<and> unat (px_g (palette_entry c False)) = 8 * ((unat c div 32) mod 32)
   \<and> unat (px_b (palette_entry c False)) = 8 * ((unat c div 1024) mod 32)
   \<and> px_a (palette_entry c False) = 0xFF
   \<and> px_r (palette_entry 0x7C00 False) = 0
   \<and> px_g (palette_entry 0x7C00 False) = 0
   \<and> px_b (palette_entry 0x7C00 False) = 248"
proof -
  have e: "palette_entry c False = pack_rgba (chan5 c 0, chan5 c 5, chan5 c 10)" for c
    by (simp add: palette_entry_def pal_rgb_def)
  have r: "unat (px_r (palette_entry c False)) = 8 * (unat c mod 32)"
    using chan5_unat [of c 0] by (simp add: e px_r_pack)
  have g: "unat (px_g (palette_entry c False)) = 8 * ((unat c div 32) mod 32)"
    using chan5_unat [of c 5] by (simp add: e px_g_pack)
  have b: "unat (px_b (palette_entry c False)) = 8 * ((unat c div 1024) mod 32)"
    using chan5_unat [of c 10] by (simp add: e px_b_pack)
  have a: "px_a (palette_entry c False) = 0xFF"
    by (simp only: e px_a_pack)
  have blue: "px_r (palette_entry 0x7C00 False) = 0" "px_g (palette_entry 0x7C00 False) = 0"
    "px_b (palette_entry 0x7C00 False) = 248"
    by (simp_all add: e px_r_pack px_g_pack px_b_pack chan5_def)
  have n: "\<forall>i. 1 \<le> i \<and> i < 16 \<longrightarrow>
       build_palette palSrc grayscale ! i = palette_entry (rd16 palSrc (i * 2)) grayscale"
    using build_palette_nth by blast
  from n r g b a blue show ?thesis by blast
qed

definition pal_demo :: mem where
  "pal_demo = mem_of_list [0xFF, 0xFF, 0x00, 0x7C, 0xFF, 0x7F]"

theorem palette_entry_shift_expansion_witness:
  "rd16 pal_demo (1 * 2) = 0x7C00
   \<and> build_palette pal_demo False ! 1 = 0x0000F8FF
   \<and> px_b (build_palette pal_demo False ! 1) = 248"
proof -
  have rd: "rd16 pal_demo (1 * 2) = 0x7C00"
    by (simp add: rd16_def pal_demo_def mem_of_list_def)
  note T = palette_entry_shift_expansion [of pal_demo False "0x7C00"]
  have "(1::nat) \<le> 1 \<and> (1::nat) < 16 \<longrightarrow>
          build_palette pal_demo False ! 1 = palette_entry (rd16 pal_demo (1 * 2)) False"
    using T [THEN conjunct1] by (rule spec)
  then have n: "build_palette pal_demo False ! 1 = palette_entry 0x7C00 False"
    unfolding rd by simp
  have v: "palette_entry 0x7C00 False = 0x0000F8FF"
    by (simp add: palette_entry_def pal_rgb_def pack_rgba_def chan5_def)
  have b: "px_b (palette_entry 0x7C00 False) = 248"
    using T by blast
  from rd n v b show ?thesis by simp
qed

text \<open>
  The claim as the specification states it asks for blue 255 at \<open>0x7C00\<close>, the top three
  bits of the channel replicated into the low three. The code gives 248, low bits 0.
\<close>

theorem palette_blue_counterexample:
  "px_b (palette_entry 0x7C00 False) = 248
   \<and> px_b (palette_entry 0x7C00 False) \<noteq> 255
   \<and> px_b (palette_entry 0x7C00 False) AND 7 = 0"
  by (simp add: palette_entry_def pal_rgb_def pack_rgba_def chan5_def px_b_def)

text \<open>
  C3, as the code has it. With grayscale requested, the three colour channels of an entry
  are all the luma \<open>(R * 77 + G * 150 + B * 29) >> 8\<close> of the channels \<open>R\<close>, \<open>G\<close>, \<open>B\<close> as
  the code expands them (8 times the 5-bit channel); the sum does not overflow and the
  result fits 8 bits. Pure white (\<open>0x7FFF\<close>) expands to 248 on each channel, and its luma
  is 248 on all three.
\<close>

theorem grayscale_luma:
  "unat (px_r (palette_entry c True))
      = (8 * (unat c mod 32) * 77 + 8 * ((unat c div 32) mod 32) * 150
         + 8 * ((unat c div 1024) mod 32) * 29) div 256
   \<and> px_g (palette_entry c True) = px_r (palette_entry c True)
   \<and> px_b (palette_entry c True) = px_r (palette_entry c True)
   \<and> px_a (palette_entry c True) = 0xFF
   \<and> pal_rgb 0x7FFF False = (248, 248, 248)
   \<and> pal_rgb 0x7FFF True = (248, 248, 248)"
proof -
  let ?l = "luma (chan5 c 0) (chan5 c 5) (chan5 c 10)"
  have e: "palette_entry c True = pack_rgba (?l, ?l, ?l)"
    by (simp add: palette_entry_def pal_rgb_def Let_def)
  have r: "unat (px_r (palette_entry c True))
      = (8 * (unat c mod 32) * 77 + 8 * ((unat c div 32) mod 32) * 150
         + 8 * ((unat c div 1024) mod 32) * 29) div 256"
    using chan5_unat [of c 0] chan5_unat [of c 5] chan5_unat [of c 10]
    by (simp add: e px_r_pack luma_unat)
  have g: "px_g (palette_entry c True) = px_r (palette_entry c True)"
    by (simp only: e px_r_pack px_g_pack)
  have b: "px_b (palette_entry c True) = px_r (palette_entry c True)"
    by (simp only: e px_r_pack px_b_pack)
  have a: "px_a (palette_entry c True) = 0xFF"
    by (simp only: e px_a_pack)
  have w: "pal_rgb 0x7FFF False = (248, 248, 248)" "pal_rgb 0x7FFF True = (248, 248, 248)"
    by (simp_all add: pal_rgb_def chan5_def luma_def)
  from r g b a w show ?thesis by blast
qed

theorem grayscale_white_counterexample:
  "pal_rgb 0x7FFF True = (248, 248, 248)
   \<and> pal_rgb 0x7FFF True \<noteq> (255, 255, 255)
   \<and> px_r (palette_entry 0x7FFF True) \<noteq> 255"
  by (simp add: palette_entry_def pal_rgb_def pack_rgba_def chan5_def luma_def px_r_def)

section \<open>Morton addressing (\<^verbatim>\<open>mortonIdx\<close>, \<^verbatim>\<open>texOffset\<close>, sprite.c)\<close>

text \<open>
  Both functions take C \<^verbatim>\<open>int\<close> arguments and return \<^verbatim>\<open>uint32_t\<close>. The arguments
  are modelled as \<open>int\<close> with two's-complement bit operations (\<open>>>\<close> on a negative
  \<^verbatim>\<open>int\<close> is the arithmetic shift on the target); the result of the \<^verbatim>\<open>int\<close>
  expression is converted to 32 bits, and the final sum of \<open>texOffset\<close> is unsigned.
\<close>

definition mortonIdx :: "int \<Rightarrow> int \<Rightarrow> u32" where
  "mortonIdx x y = word_of_int
     ((x AND 1) OR push_bit 1 (y AND 1) OR
      push_bit 1 (x AND 2) OR push_bit 2 (y AND 2) OR
      push_bit 2 (x AND 4) OR push_bit 3 (y AND 4))"

definition texOffset :: "int \<Rightarrow> int \<Rightarrow> int \<Rightarrow> u32" where
  "texOffset x y texW =
     word_of_int ((drop_bit 3 y * drop_bit 3 texW + drop_bit 3 x) * 64)
       + mortonIdx (x AND 7) (y AND 7)"


definition morton_x :: "int \<Rightarrow> int" where
  "morton_x m = (m AND 1) OR (drop_bit 1 m AND 2) OR (drop_bit 2 m AND 4)"

definition morton_y :: "int \<Rightarrow> int" where
  "morton_y m = (drop_bit 1 m AND 1) OR (drop_bit 2 m AND 2) OR (drop_bit 3 m AND 4)"

lemma morton_inverse:
  assumes "0 \<le> a" "a < 8" "0 \<le> b" "b < 8"
  shows "uint (mortonIdx a b) < 64 \<and> morton_x (uint (mortonIdx a b)) = a
       \<and> morton_y (uint (mortonIdx a b)) = b"
proof -
  have a: "a \<in> {0,1,2,3,4,5,6,7}" using assms by auto
  have b: "b \<in> {0,1,2,3,4,5,6,7}" using assms by auto
  from a b show ?thesis
    by (auto simp: mortonIdx_def morton_x_def morton_y_def)
qed

lemma int_and_7: "(x::int) AND 7 = x mod 8"
proof -
  have "x AND mask 3 = x mod 2 ^ 3"
    by (simp add: take_bit_eq_mod flip: take_bit_eq_mask)
  then show ?thesis by (simp add: mask_eq_exp_minus_1)
qed

lemma texOffset_uint:
  assumes "0 \<le> x" "x < 64" "0 \<le> y" "y < 64"
  shows "uint (texOffset x y 64)
           = ((y div 8) * 8 + x div 8) * 64 + uint (mortonIdx (x mod 8) (y mod 8))"
    and "uint (mortonIdx (x mod 8) (y mod 8)) < 64"
    and "(y div 8) * 8 + x div 8 < 64" and "0 \<le> (y div 8) * 8 + x div 8"
proof -
  let ?T = "(y div 8) * 8 + x div 8"
  let ?m = "mortonIdx (x mod 8) (y mod 8)"
  have d: "0 \<le> x div 8" "x div 8 < 8" "0 \<le> y div 8" "y div 8 < 8"
    using assms by simp_all
  show T: "?T < 64" and T0: "0 \<le> ?T" using d by simp_all
  have md: "0 \<le> x mod 8" "x mod 8 < 8" "0 \<le> y mod 8" "y mod 8 < 8" by simp_all
  show m: "uint ?m < 64"
    using morton_inverse [OF md] by simp
  define K where "K = ?T * 64"
  have b: "0 \<le> K" "K < 4096" using T T0 by (simp_all add: K_def)
  then have "K < 2 ^ 32" by simp
  then have w: "uint (word_of_int K :: u32) = K"
    using b(1) by (simp add: uint_word_of_int_eq take_bit_int_eq_self)
  have "0 \<le> uint ?m" by simp
  then have "K + uint ?m < 2 ^ 32" "0 \<le> K + uint ?m" using m b by simp_all
  then have "(K + uint ?m) mod 2 ^ 32 = K + uint ?m"
    by (intro mod_pos_pos_trivial)
  then have "uint (word_of_int K + ?m) = K + uint ?m"
    by (simp add: uint_word_ariths w)
  moreover have "texOffset x y 64 = word_of_int K + ?m"
    by (simp add: texOffset_def int_and_7 drop_bit_eq_div K_def)
  ultimately show "uint (texOffset x y 64) = ?T * 64 + uint ?m"
    by (simp only: K_def)
qed


lemma texOffset_facts:
  assumes "0 \<le> x" "x < 64" "0 \<le> y" "y < 64"
    and "0 \<le> x'" "x' < 64" "0 \<le> y'" "y' < 64"
  shows "uint (texOffset x y 64)
           = ((y div 8) * 8 + x div 8) * 64 + uint (mortonIdx (x mod 8) (y mod 8))
       \<and> 0 \<le> uint (texOffset x y 64) \<and> uint (texOffset x y 64) < 4096
       \<and> (texOffset x y 64 = texOffset x' y' 64 \<longrightarrow> x = x' \<and> y = y')"
proof -
  define a b a' b' where "a = y div 8" and "b = x div 8" and "a' = y' div 8" and "b' = x' div 8"
  define m m' where "m = uint (mortonIdx (x mod 8) (y mod 8))"
    and "m' = uint (mortonIdx (x' mod 8) (y' mod 8))"
  note A = texOffset_uint [OF assms(1-4), folded a_def b_def m_def]
  note B = texOffset_uint [OF assms(5-8), folded a'_def b'_def m'_def]
  have mb: "0 \<le> m" "0 \<le> m'" by (simp_all add: m_def m'_def)
  have r: "uint (texOffset x y 64) < 4096"
    using A mb by simp
  have inj: "x = x' \<and> y = y'" if eq: "texOffset x y 64 = texOffset x' y' 64"
  proof -
    have e: "(a * 8 + b) * 64 + m = (a' * 8 + b') * 64 + m'"
      using A(1) B(1) eq by simp
    have "((a * 8 + b) * 64 + m) div 64 = a * 8 + b"
      using mb(1) A(2) by simp
    moreover have "((a' * 8 + b') * 64 + m') div 64 = a' * 8 + b'"
      using mb(2) B(2) by simp
    ultimately have T: "a * 8 + b = a' * 8 + b'"
      by (simp only: e)
    then have mm: "m = m'" using e by simp
    have md: "0 \<le> x mod 8" "x mod 8 < 8" "0 \<le> y mod 8" "y mod 8 < 8" by simp_all
    have md': "0 \<le> x' mod 8" "x' mod 8 < 8" "0 \<le> y' mod 8" "y' mod 8 < 8" by simp_all
    have "x mod 8 = morton_x m" "y mod 8 = morton_y m"
      using morton_inverse [OF md] by (simp_all add: m_def)
    moreover have "x' mod 8 = morton_x m'" "y' mod 8 = morton_y m'"
      using morton_inverse [OF md'] by (simp_all add: m'_def)
    ultimately have lo: "x mod 8 = x' mod 8" "y mod 8 = y' mod 8"
      using mm by simp_all
    have d: "0 \<le> b" "b < 8" "0 \<le> b'" "b' < 8"
      using assms by (simp_all add: b_def b'_def)
    have "(a * 8 + b) div 8 = a" "(a' * 8 + b') div 8 = a'"
      using d by simp_all
    then have "a = a'" by (simp only: T)
    then have "b = b'" using T by simp
    have hi: "x div 8 = x' div 8" "y div 8 = y' div 8"
      using \<open>a = a'\<close> \<open>b = b'\<close> by (simp_all add: a_def b_def a'_def b'_def)
    have "x = 8 * (x div 8) + x mod 8" by simp
    also have "\<dots> = 8 * (x' div 8) + x' mod 8" by (simp only: lo hi)
    also have "\<dots> = x'" by simp
    finally have X: "x = x'" .
    have "y = 8 * (y div 8) + y mod 8" by simp
    also have "\<dots> = 8 * (y' div 8) + y' mod 8" by (simp only: lo hi)
    also have "\<dots> = y'" by simp
    finally have Y: "y = y'" .
    from X Y show ?thesis by simp
  qed
  have f: "uint (texOffset x y 64)
           = ((y div 8) * 8 + x div 8) * 64 + uint (mortonIdx (x mod 8) (y mod 8))"
    using A(1) by (simp only: a_def b_def m_def)
  have nn: "0 \<le> uint (texOffset x y 64)" by simp
  from f nn r inj show ?thesis by blast
qed

section \<open>ROM profile (\<^verbatim>\<open>romprofile.h\<close>, \<^verbatim>\<open>romprofile.c\<close>)\<close>

text \<open>
  The fields of \<^verbatim>\<open>struct RomProfile\<close> that the sprite decoder and the party reader use.
  The name string and the trainer, badge and battle offsets are read by neither.
\<close>

record RomProfile =
  speciesCount :: u16
  moveCount :: u16
  spriteTable :: u32
  paletteTable :: u32
  speciesNames :: u32
  moveNames :: u32
  learnsetTable :: u32
  speciesNameLen :: u8
  moveNameLen :: u8
  partyCount :: u32
  partyData :: u32

text \<open>\<^verbatim>\<open>sProfiles[0]\<close>, FireRed US v1.0, the profile \<^verbatim>\<open>romprofileGet\<close> always returns.\<close>

definition firered_profile :: RomProfile where
  "firered_profile = \<lparr>
     speciesCount = 412, moveCount = 355,
     spriteTable = 0x2350AC, paletteTable = 0x23730C,
     speciesNames = 0x245EE0, moveNames = 0x247094, learnsetTable = 0x25D7B4,
     speciesNameLen = 11, moveNameLen = 13,
     partyCount = 0x24029, partyData = 0x24284 \<rparr>"

section \<open>Sprite decode and texture cache (\<^verbatim>\<open>decodeSpriteSlot\<close>, \<^verbatim>\<open>findOrDecode\<close>, sprite.c)\<close>

text \<open>
  The file-level state of sprite.c: the pixel data of the eight textures, the cached keys,
  the in-use flags (the C \<^verbatim>\<open>int\<close> flags only ever hold 0 or 1) and the eviction cursor
  (a C \<^verbatim>\<open>int\<close> that only ever holds 0 or \<^verbatim>\<open>(sNextEvict + 1) % 8\<close>, hence a \<open>nat\<close>).
  A texture is its 64 * 64 pixel words; before \<^verbatim>\<open>C3D_TexInit\<close> it has no data.
\<close>

record sprite_cache =
  sSpriteTex :: "u32 list list"
  sCachedSpecies :: "u16 list"
  sTexInited :: "bool list"
  sNextEvict :: nat

definition initial_cache :: sprite_cache where
  "initial_cache = \<lparr> sSpriteTex = replicate 8 [], sCachedSpecies = replicate 8 0,
                      sTexInited = replicate 8 False, sNextEvict = 0 \<rparr>"

text \<open>
  The two stack arrays of \<^verbatim>\<open>decodeSpriteSlot\<close>, \<^verbatim>\<open>decomp[4096]\<close> and
  \<^verbatim>\<open>palRaw[64]\<close>, are not initialised by the C code: what they hold on entry is a
  parameter of the model.
\<close>

record frame =
  decomp0 :: buf
  palRaw0 :: buf

text \<open>
  The body of the innermost loop of the tile walk (\<^verbatim>\<open>px\<close> steps by 2): one byte of
  the tile gives two pixels.
\<close>

definition walk_px :: "buf \<Rightarrow> u32 list \<Rightarrow> nat \<Rightarrow> nat \<Rightarrow> nat \<Rightarrow> nat \<Rightarrow> u32 list \<Rightarrow> u32 list" where
  "walk_px decomp palette ty tx py px texData =
     (let tileIdx = ty * 8 + tx;
          byte = decomp (int (tileIdx * 32 + py * 4 + px div 2));
          lo = byte AND 0x0F;
          hi = drop_bit 4 byte AND 0x0F;
          sx = int (tx * 8 + px);
          sy = int (ty * 8 + py)
      in texData [unat (texOffset sx sy 64) := palette ! unat lo,
                  unat (texOffset (sx + 1) sy 64) := palette ! unat hi])"

definition tile_walk :: "buf \<Rightarrow> u32 list \<Rightarrow> u32 list \<Rightarrow> u32 list" where
  "tile_walk decomp palette texData =
     fold (\<lambda>ty. fold (\<lambda>tx. fold (\<lambda>py. fold (walk_px decomp palette ty tx py) [0, 2, 4, 6])
                                  [0..<8])
                      [0..<8])
          [0..<8] texData"

definition decodeSpriteSlot ::
  "mem \<Rightarrow> RomProfile \<Rightarrow> frame \<Rightarrow> u16 \<Rightarrow> nat \<Rightarrow> bool \<Rightarrow> sprite_cache \<Rightarrow> int \<times> sprite_cache" where
  "decodeSpriteSlot rom prof fr species slot grayscale st =
     (let sprPtr = rd32 rom (unat (spriteTable prof) + unat species * 8) in
      if drop_bit 24 sprPtr \<noteq> 0x08 then (0, st) else
      let sprOff = sprPtr AND 0x01FFFFFF;
          palPtr = rd32 rom (unat (paletteTable prof) + unat species * 8) in
      if drop_bit 24 palPtr \<noteq> 0x08 then (0, st) else
      let palOff = palPtr AND 0x01FFFFFF;
          (decompSize, decomp) = decompLZ77 (offset_view rom (unat sprOff)) (decomp0 fr) 4096 in
      if decompSize = 0 then (0, st) else
      let (palSize, palRaw) = decompLZ77 (offset_view rom (unat palOff)) (palRaw0 fr) 64;
          palSrc = (if palSize \<ge> 32 then buf_view palRaw else offset_view rom (unat palOff));
          palette = build_palette palSrc grayscale;
          st1 = (if \<not> sTexInited st ! slot
                 then st\<lparr>sTexInited := (sTexInited st)[slot := True]\<rparr> else st);
          texData = tile_walk decomp palette (replicate (64 * 64) 0)
      in (1, st1\<lparr>sSpriteTex := (sSpriteTex st1)[slot := texData]\<rparr>))"

text \<open>The two scanning loops of \<^verbatim>\<open>findOrDecode\<close>: the first index that satisfies the test.\<close>

definition find_hit :: "sprite_cache \<Rightarrow> u16 \<Rightarrow> nat option" where
  "find_hit st cacheKey =
     find (\<lambda>i. sTexInited st ! i \<and> sCachedSpecies st ! i = cacheKey) [0..<8]"

definition find_empty :: "sprite_cache \<Rightarrow> nat option" where
  "find_empty st = find (\<lambda>i. \<not> sTexInited st ! i) [0..<8]"

text \<open>
  The common tail of the second and third path: decode into slot \<open>i\<close>, store the key on
  success, return the slot or \<^verbatim>\<open>NULL\<close>.
\<close>

definition decode_into ::
  "mem \<Rightarrow> RomProfile \<Rightarrow> frame \<Rightarrow> u16 \<Rightarrow> bool \<Rightarrow> u16 \<Rightarrow> nat \<Rightarrow> sprite_cache
     \<Rightarrow> nat option \<times> sprite_cache" where
  "decode_into rom prof fr species grayscale cacheKey i st =
     (case decodeSpriteSlot rom prof fr species i grayscale st of (r, st') \<Rightarrow>
        if r \<noteq> 0 then (Some i, st'\<lparr>sCachedSpecies := (sCachedSpecies st')[i := cacheKey]\<rparr>)
        else (None, st'))"

definition cache_key :: "u16 \<Rightarrow> bool \<Rightarrow> u16" where
  "cache_key species grayscale = species OR (if grayscale then 0x8000 else 0)"

definition findOrDecode ::
  "mem \<Rightarrow> RomProfile \<Rightarrow> frame \<Rightarrow> u16 \<Rightarrow> bool \<Rightarrow> sprite_cache \<Rightarrow> nat option \<times> sprite_cache" where
  "findOrDecode rom prof fr species grayscale st =
     (let cacheKey = cache_key species grayscale in
      case find_hit st cacheKey of
        Some i \<Rightarrow> (Some i, st)
      | None \<Rightarrow>
          (case find_empty st of
             Some i \<Rightarrow> decode_into rom prof fr species grayscale cacheKey i st
           | None \<Rightarrow>
               (let i = sNextEvict st;
                    st0 = st\<lparr>sNextEvict := (sNextEvict st + 1) mod 8\<rparr>
                in decode_into rom prof fr species grayscale cacheKey i st0)))"

text \<open>\<^verbatim>\<open>spriteFree\<close>, the part that concerns the cache.\<close>

definition spriteFree :: "sprite_cache \<Rightarrow> sprite_cache" where
  "spriteFree st =
     \<lparr> sSpriteTex = map (\<lambda>i. if sTexInited st ! i then [] else sSpriteTex st ! i) [0..<8],
       sCachedSpecies = map (\<lambda>i. if sTexInited st ! i then 0 else sCachedSpecies st ! i) [0..<8],
       sTexInited = replicate 8 False,
       sNextEvict = 0 \<rparr>"

subsection \<open>The tile walk writes every pixel to its own word\<close>

text \<open>
  The palette index of pixel \<open>(x, y)\<close> in the decompressed tile data, as the tile format
  is described: tiles of 32 bytes, row-major in the sprite; within a tile four bytes per
  row; the low nibble of a byte is the left pixel, the high nibble the right one.
\<close>

definition pixel_nibble :: "buf \<Rightarrow> nat \<Rightarrow> nat \<Rightarrow> u8" where
  "pixel_nibble decomp x y =
     (let byte = decomp (int (((y div 8) * 8 + x div 8) * 32 + (y mod 8) * 4 + (x mod 8) div 2))
      in if even x then byte AND 0x0F else drop_bit 4 byte AND 0x0F)"

text \<open>The pixel writes of the walk, in order: destination index and value.\<close>

definition px_writes :: "buf \<Rightarrow> u32 list \<Rightarrow> nat \<times> nat \<times> nat \<times> nat \<Rightarrow> (nat \<times> u32) list" where
  "px_writes decomp palette q = (case q of (ty, tx, py, px) \<Rightarrow>
     [(unat (texOffset (int (tx * 8 + px)) (int (ty * 8 + py)) 64),
       palette ! unat (pixel_nibble decomp (tx * 8 + px) (ty * 8 + py))),
      (unat (texOffset (int (tx * 8 + px) + 1) (int (ty * 8 + py)) 64),
       palette ! unat (pixel_nibble decomp (tx * 8 + px + 1) (ty * 8 + py)))])"

definition walk_writes :: "buf \<Rightarrow> u32 list \<Rightarrow> (nat \<times> u32) list" where
  "walk_writes decomp palette =
     concat (map (\<lambda>ty. concat (map (\<lambda>tx. concat (map (\<lambda>py.
               concat (map (\<lambda>px. px_writes decomp palette (ty, tx, py, px)) [0, 2, 4, 6]))
             [0..<8])) [0..<8])) [0..<8])"

definition put :: "nat \<times> u32 \<Rightarrow> u32 list \<Rightarrow> u32 list" where
  "put kv t = t[fst kv := snd kv]"

lemma walk_px_writes:
  assumes "px \<in> {0, 2, 4, 6}" "tx < 8" "py < 8"
  shows "walk_px decomp palette ty tx py px t = fold put (px_writes decomp palette (ty, tx, py, px)) t"
proof -
  let ?b = "decomp (int ((ty * 8 + tx) * 32 + py * 4 + px div 2))"
  have idx0: "((ty * 8 + py) div 8 * 8 + (tx * 8 + px) div 8) * 32 + (ty * 8 + py) mod 8 * 4
                + (tx * 8 + px) mod 8 div 2 = (ty * 8 + tx) * 32 + py * 4 + px div 2"
    using assms by auto
  have idx1: "((ty * 8 + py) div 8 * 8 + (tx * 8 + px + 1) div 8) * 32 + (ty * 8 + py) mod 8 * 4
                + (tx * 8 + px + 1) mod 8 div 2 = (ty * 8 + tx) * 32 + py * 4 + px div 2"
    using assms by auto
  have ev: "even (tx * 8 + px)" "\<not> even (tx * 8 + px + 1)"
    using assms(1) by auto
  have n0: "pixel_nibble decomp (tx * 8 + px) (ty * 8 + py) = ?b AND 0x0F"
    unfolding pixel_nibble_def Let_def idx0 using ev(1) by simp
  have n1: "pixel_nibble decomp (tx * 8 + px + 1) (ty * 8 + py) = drop_bit 4 ?b AND 0x0F"
    unfolding pixel_nibble_def Let_def idx1 using ev(2) by simp
  show ?thesis
    unfolding walk_px_def px_writes_def put_def Let_def prod.case n0 n1 by simp
qed

lemma fold_writes:
  "(\<And>x. x \<in> set xs \<Longrightarrow> f x = fold put (w x)) \<Longrightarrow> fold f xs = fold put (concat (map w xs))"
  by (induction xs) (simp_all add: fun_eq_iff)

lemma tile_walk_fold: "tile_walk decomp palette = fold put (walk_writes decomp palette)"
proof -
  have row: "fold (walk_px decomp palette ty tx py) [0, 2, 4, 6]
       = fold put (concat (map (\<lambda>px. px_writes decomp palette (ty, tx, py, px)) [0, 2, 4, 6]))"
    if "tx < 8" "py < 8" for ty tx py
    by (rule fold_writes) (use that in \<open>auto simp: fun_eq_iff walk_px_writes\<close>)
  have tile: "fold (\<lambda>py. fold (walk_px decomp palette ty tx py) [0, 2, 4, 6]) [0..<8]
       = fold put (concat (map (\<lambda>py.
               concat (map (\<lambda>px. px_writes decomp palette (ty, tx, py, px)) [0, 2, 4, 6]))
             [0..<8]))"
    if "tx < 8" for ty tx
  proof (rule fold_writes)
    fix py :: nat assume "py \<in> set [0..<8]"
    then have "py < 8" by simp
    with that show "fold (walk_px decomp palette ty tx py) [0, 2, 4, 6]
       = fold put (concat (map (\<lambda>px. px_writes decomp palette (ty, tx, py, px)) [0, 2, 4, 6]))"
      by (rule row)
  qed
  have trow: "fold (\<lambda>tx. fold (\<lambda>py. fold (walk_px decomp palette ty tx py) [0, 2, 4, 6]) [0..<8])
                [0..<8]
       = fold put (concat (map (\<lambda>tx. concat (map (\<lambda>py.
               concat (map (\<lambda>px. px_writes decomp palette (ty, tx, py, px)) [0, 2, 4, 6]))
             [0..<8])) [0..<8]))"
    for ty
  proof (rule fold_writes)
    fix tx :: nat assume "tx \<in> set [0..<8]"
    then have "tx < 8" by simp
    then show "fold (\<lambda>py. fold (walk_px decomp palette ty tx py) [0, 2, 4, 6]) [0..<8]
       = fold put (concat (map (\<lambda>py.
               concat (map (\<lambda>px. px_writes decomp palette (ty, tx, py, px)) [0, 2, 4, 6]))
             [0..<8]))"
      by (rule tile)
  qed
  have "fold (\<lambda>ty. fold (\<lambda>tx. fold (\<lambda>py. fold (walk_px decomp palette ty tx py) [0, 2, 4, 6])
                                  [0..<8]) [0..<8]) [0..<8]
       = fold put (walk_writes decomp palette)"
    unfolding walk_writes_def
    by (rule fold_writes) (rule trow)
  then show ?thesis by (simp add: tile_walk_def fun_eq_iff)
qed

lemma fold_put_length: "length (fold put kvs t) = length t"
  by (induction kvs arbitrary: t) (simp_all add: put_def)

lemma fold_put_snoc: "fold put (kvs @ [kv]) t = (fold put kvs t)[fst kv := snd kv]"
  by (simp add: put_def)

lemma fold_put_nth:
  assumes same: "\<forall>kv \<in> set kvs. fst kv = k \<longrightarrow> snd kv = v"
    and ex: "\<exists>kv \<in> set kvs. fst kv = k"
    and k: "k < length t"
  shows "fold put kvs t ! k = v"
  using same ex
proof (induction kvs rule: rev_induct)
  case Nil
  then show ?case by simp
next
  case (snoc kv kvs)
  show ?case
  proof (cases "fst kv = k")
    case True
    then have "snd kv = v" using snoc.prems(1) by simp
    moreover have "length (fold put kvs t) = length t" by (rule fold_put_length)
    ultimately show ?thesis using True k by (simp add: fold_put_snoc del: fold_append)
  next
    case False
    then have "\<exists>kv \<in> set kvs. fst kv = k" using snoc.prems(2) by auto
    moreover have "\<forall>kv \<in> set kvs. fst kv = k \<longrightarrow> snd kv = v" using snoc.prems(1) by simp
    ultimately have "fold put kvs t ! k = v" by (rule snoc.IH [rotated])
    then show ?thesis using False by (simp add: fold_put_snoc del: fold_append)
  qed
qed


lemma in_concat_map: "kv \<in> set (concat (map f xs)) \<longleftrightarrow> (\<exists>x \<in> set xs. kv \<in> set (f x))"
  by auto

lemma walk_writes_mem:
  "kv \<in> set (walk_writes decomp palette) \<longleftrightarrow>
     (\<exists>ty \<in> set [0..<8]. \<exists>tx \<in> set [0..<8]. \<exists>py \<in> set [0..<8]. \<exists>px \<in> set [0, 2, 4, 6].
        kv \<in> set (px_writes decomp palette (ty, tx, py, px)))"
  by (simp only: walk_writes_def in_concat_map)

lemma walk_writes_in:
  assumes "kv \<in> set (walk_writes decomp palette)"
  shows "\<exists>X Y. X < 64 \<and> Y < 64
           \<and> kv = (unat (texOffset (int X) (int Y) 64), palette ! unat (pixel_nibble decomp X Y))"
proof -
  from assms obtain ty tx py px where r0: "ty \<in> set [0..<8]" "tx \<in> set [0..<8]"
    "py \<in> set [0..<8]" "px \<in> set [0, 2, 4, 6]"
    and kv: "kv \<in> set (px_writes decomp palette (ty, tx, py, px))"
    unfolding walk_writes_mem by (elim bexE)
  have r: "ty < 8" "tx < 8" "py < 8" "px \<in> {0, 2, 4, 6}" using r0 by simp_all
  let ?X = "tx * 8 + px" and ?Y = "ty * 8 + py"
  have b: "?X < 64" "?X + 1 < 64" "?Y < 64" using r by auto
  have i: "int ?X + 1 = int (?X + 1)" by simp
  from kv have "kv = (unat (texOffset (int ?X) (int ?Y) 64),
                      palette ! unat (pixel_nibble decomp ?X ?Y))
              \<or> kv = (unat (texOffset (int (?X + 1)) (int ?Y) 64),
                      palette ! unat (pixel_nibble decomp (?X + 1) ?Y))"
    unfolding px_writes_def prod.case i by simp
  with b show ?thesis by blast
qed

lemma walk_writes_has:
  assumes "x < 64" "y < 64"
  shows "(unat (texOffset (int x) (int y) 64), palette ! unat (pixel_nibble decomp x y))
           \<in> set (walk_writes decomp palette)"
proof -
  define ty tx py px where "ty = y div 8" and "tx = x div 8" and "py = y mod 8"
    and "px = 2 * ((x mod 8) div 2)"
  have r: "ty < 8" "tx < 8" "py < 8" using assms by (simp_all add: ty_def tx_def py_def)
  have "(x mod 8) div 2 < 4" by simp
  then have "(x mod 8) div 2 = 0 \<or> (x mod 8) div 2 = 1 \<or> (x mod 8) div 2 = 2
             \<or> (x mod 8) div 2 = 3" by arith
  then have p: "px \<in> {0, 2, 4, 6}" unfolding px_def by auto
  have Y: "ty * 8 + py = y" by (simp add: ty_def py_def)
  have X: "tx * 8 + px = x \<or> tx * 8 + px + 1 = x"
    unfolding tx_def px_def by presburger
  have i: "int (tx * 8 + px) + 1 = int (tx * 8 + px + 1)" by simp
  have "(unat (texOffset (int x) (int y) 64), palette ! unat (pixel_nibble decomp x y))
          \<in> set (px_writes decomp palette (ty, tx, py, px))"
    using X unfolding px_writes_def prod.case i Y by auto
  moreover have "ty \<in> set [0..<8]" "tx \<in> set [0..<8]" "py \<in> set [0..<8]"
    "px \<in> set [0, 2, 4, 6]"
    using r p by simp_all
  ultimately show ?thesis
    unfolding walk_writes_mem by (intro bexI)
qed

lemma texOffset_nat_facts:
  assumes "x < 64" "y < 64" "X < 64" "Y < 64"
  shows "unat (texOffset (int x) (int y) 64) < 4096"
    and "unat (texOffset (int X) (int Y) 64) = unat (texOffset (int x) (int y) 64)
           \<Longrightarrow> X = x \<and> Y = y"
proof -
  have h: "0 \<le> int x" "int x < 64" "0 \<le> int y" "int y < 64"
    "0 \<le> int X" "int X < 64" "0 \<le> int Y" "int Y < 64"
    using assms by simp_all
  note F = texOffset_facts [OF h(5-8) h(1-4)]
  note G = texOffset_facts [OF h(1-4) h(5-8)]
  have "uint (texOffset (int x) (int y) 64) < 4096"
    by (rule G [THEN conjunct2, THEN conjunct2, THEN conjunct1])
  then show "unat (texOffset (int x) (int y) 64) < 4096"
    by (simp only: unat_eq_nat_uint)
  assume "unat (texOffset (int X) (int Y) 64) = unat (texOffset (int x) (int y) 64)"
  then have "texOffset (int X) (int Y) 64 = texOffset (int x) (int y) 64"
    by (simp only: word_unat_eq_iff)
  with F [THEN conjunct2, THEN conjunct2, THEN conjunct2]
  have "int X = int x \<and> int Y = int y" by (rule mp)
  then show "X = x \<and> Y = y" by simp
qed

lemma tile_walk_pixel:
  assumes x: "x < 64" and y: "y < 64" and len: "length t = 4096"
  shows "tile_walk decomp palette t ! unat (texOffset (int x) (int y) 64)
           = palette ! unat (pixel_nibble decomp x y)"
proof -
  let ?k = "unat (texOffset (int x) (int y) 64)"
  let ?v = "palette ! unat (pixel_nibble decomp x y)"
  have same: "\<forall>kv \<in> set (walk_writes decomp palette). fst kv = ?k \<longrightarrow> snd kv = ?v"
  proof (intro ballI impI)
    fix kv assume "kv \<in> set (walk_writes decomp palette)" and e: "fst kv = ?k"
    then obtain X Y where XY: "X < 64" "Y < 64"
      and kv: "kv = (unat (texOffset (int X) (int Y) 64), palette ! unat (pixel_nibble decomp X Y))"
      using walk_writes_in by blast
    have "X = x \<and> Y = y"
      using texOffset_nat_facts(2) [OF x y XY] e kv by simp
    then show "snd kv = ?v" using kv by simp
  qed
  have ex: "\<exists>kv \<in> set (walk_writes decomp palette). fst kv = ?k"
    using walk_writes_has [OF x y, of palette decomp] by force
  have k: "?k < length t"
    using texOffset_nat_facts(1) [OF x y x y] len by simp
  show ?thesis
    unfolding tile_walk_fold using same ex k by (rule fold_put_nth)
qed

lemma tile_walk_length: "length (tile_walk decomp palette t) = length t"
  by (simp add: tile_walk_fold fold_put_length)


text \<open>
  C10. For pixel coordinates within the 64x64 sprite, \<open>texOffset\<close> is the tile base
  \<open>((y div 8) * 8 + x div 8) * 64\<close> plus the Morton index of the position within the
  tile; it lies in \<open>[0, 4096)\<close> and is distinct for distinct coordinates. So the tile
  walk writes inside the 4096-word buffer, keeps its length, and leaves at the offset of
  every pixel the colour of that pixel: no later write of the walk lands on it.
\<close>

theorem texOffset_in_range_injective:
  assumes "0 \<le> x" "x < 64" "0 \<le> y" "y < 64"
    and "0 \<le> x'" "x' < 64" "0 \<le> y'" "y' < 64"
  shows "uint (texOffset x y 64)
           = ((y div 8) * 8 + x div 8) * 64 + uint (mortonIdx (x mod 8) (y mod 8))
       \<and> 0 \<le> uint (texOffset x y 64) \<and> uint (texOffset x y 64) < 4096
       \<and> (texOffset x y 64 = texOffset x' y' 64 \<longrightarrow> x = x' \<and> y = y')
       \<and> (\<forall>decomp palette t. length t = 4096 \<longrightarrow>
              length (tile_walk decomp palette t) = 4096
            \<and> tile_walk decomp palette t ! unat (texOffset x y 64)
                = palette ! unat (pixel_nibble decomp (nat x) (nat y)))"
proof -
  note F = texOffset_facts [OF assms]
  have n: "nat x < 64" "nat y < 64" "int (nat x) = x" "int (nat y) = y"
    using assms(1-4) by simp_all
  have w: "\<forall>decomp palette t. length t = 4096 \<longrightarrow>
              length (tile_walk decomp palette t) = 4096
            \<and> tile_walk decomp palette t ! unat (texOffset x y 64)
                = palette ! unat (pixel_nibble decomp (nat x) (nat y))"
    using tile_walk_pixel [OF n(1) n(2), unfolded n(3) n(4)] tile_walk_length
    by simp
  show ?thesis
    by (intro conjI) (rule F [THEN conjunct1] F [THEN conjunct2, THEN conjunct1]
        F [THEN conjunct2, THEN conjunct2, THEN conjunct1]
        F [THEN conjunct2, THEN conjunct2, THEN conjunct2] w)+
qed

definition demo_palette :: "u32 list" where
  "demo_palette = build_palette pal_demo False"

theorem texOffset_in_range_injective_witness:
  "(0::int) \<le> 9 \<and> (9::int) < 64 \<and> (0::int) \<le> 10 \<and> (10::int) < 64
   \<and> uint (texOffset 9 10 64) = 585 \<and> uint (texOffset 10 9 64) = 582
   \<and> uint (texOffset 9 10 64) < 4096
   \<and> texOffset 9 10 64 \<noteq> texOffset 10 9 64
   \<and> length (replicate 4096 (7::u32)) = 4096
   \<and> length (tile_walk zero_buf demo_palette (replicate 4096 7)) = 4096
   \<and> tile_walk zero_buf demo_palette (replicate 4096 7) ! 585 = demo_palette ! 0"
proof -
  have h: "(0::int) \<le> 9" "(9::int) < 64" "(0::int) \<le> 10" "(10::int) < 64" by simp_all
  note T = texOffset_in_range_injective [OF h(1) h(2) h(3) h(4) h(3) h(4) h(1) h(2)]
  have r: "uint (texOffset 9 10 64) < 4096"
    by (rule T [THEN conjunct2, THEN conjunct2, THEN conjunct1])
  have "texOffset 9 10 64 = texOffset 10 9 64 \<longrightarrow> (9::int) = 10 \<and> (10::int) = 9"
    by (rule T [THEN conjunct2, THEN conjunct2, THEN conjunct2, THEN conjunct1])
  then have ne: "texOffset 9 10 64 \<noteq> texOffset 10 9 64" by auto
  have v: "uint (texOffset 9 10 64) = 585" "uint (texOffset 10 9 64) = 582"
    by (simp_all add: texOffset_def mortonIdx_def)
  have l: "length (replicate 4096 (7::u32)) = 4096" by simp
  have "length (replicate 4096 (7::u32)) = 4096 \<longrightarrow>
              length (tile_walk zero_buf demo_palette (replicate 4096 7)) = 4096
            \<and> tile_walk zero_buf demo_palette (replicate 4096 7) ! unat (texOffset 9 10 64)
                = demo_palette ! unat (pixel_nibble zero_buf (nat 9) (nat 10))"
    using T [THEN conjunct2, THEN conjunct2, THEN conjunct2, THEN conjunct2] by blast
  then have w0: "length (tile_walk zero_buf demo_palette (replicate 4096 7)) = 4096
            \<and> tile_walk zero_buf demo_palette (replicate 4096 7) ! unat (texOffset 9 10 64)
                = demo_palette ! unat (pixel_nibble zero_buf (nat 9) (nat 10))"
    using l by (rule mp)
  have u: "unat (texOffset 9 10 64) = 585"
    using v(1) by (simp add: unat_eq_nat_uint)
  have pn: "unat (pixel_nibble zero_buf (nat 9) (nat 10)) = 0"
    by (simp add: pixel_nibble_def zero_buf_def)
  have w: "length (tile_walk zero_buf demo_palette (replicate 4096 7)) = 4096"
    "tile_walk zero_buf demo_palette (replicate 4096 7) ! 585 = demo_palette ! 0"
    using w0 unfolding u pn by simp_all
  from h r ne v l w show ?thesis by (intro conjI)
qed

subsection \<open>Requests on the cache\<close>

text \<open>A sequence of calls of \<^verbatim>\<open>findOrDecode\<close> on the same ROM, one per request.\<close>

fun run_requests ::
  "mem \<Rightarrow> RomProfile \<Rightarrow> frame \<Rightarrow> (u16 \<times> bool) list \<Rightarrow> sprite_cache \<Rightarrow> sprite_cache" where
  "run_requests rom prof fr [] st = st"
| "run_requests rom prof fr ((species, grayscale) # rs) st =
     run_requests rom prof fr rs (snd (findOrDecode rom prof fr species grayscale st))"

text \<open>
  A request takes the third path of \<^verbatim>\<open>findOrDecode\<close> (eviction) when both scanning
  loops fall through. \<open>never_evicts\<close>: no request of the sequence does.
\<close>

definition takes_evict_path :: "sprite_cache \<Rightarrow> u16 \<Rightarrow> bool" where
  "takes_evict_path st cacheKey = (find_hit st cacheKey = None \<and> find_empty st = None)"

fun never_evicts ::
  "mem \<Rightarrow> RomProfile \<Rightarrow> frame \<Rightarrow> (u16 \<times> bool) list \<Rightarrow> sprite_cache \<Rightarrow> bool" where
  "never_evicts rom prof fr [] st = True"
| "never_evicts rom prof fr ((species, grayscale) # rs) st =
     (\<not> takes_evict_path st (cache_key species grayscale)
      \<and> never_evicts rom prof fr rs (snd (findOrDecode rom prof fr species grayscale st)))"

definition cache_wf :: "sprite_cache \<Rightarrow> bool" where
  "cache_wf st = (length (sSpriteTex st) = 8 \<and> length (sCachedSpecies st) = 8
                  \<and> length (sTexInited st) = 8 \<and> sNextEvict st < 8)"

lemma upt_0_8: "[0..<8] = [0, 1, 2, 3, 4, 5, 6, 7]"
  by (simp add: upt_rec)

lemma replicate_8: "replicate 8 x = [x, x, x, x, x, x, x, x]"
  by (simp add: numeral_eq_Suc)

lemma find_empty_None: "find_empty st = None \<longleftrightarrow> (\<forall>i<8. sTexInited st ! i)"
  by (auto simp: find_empty_def find_None_iff)

lemma find_hit_None:
  "find_hit st k = None \<longleftrightarrow> (\<forall>i<8. \<not> (sTexInited st ! i \<and> sCachedSpecies st ! i = k))"
  by (auto simp: find_hit_def find_None_iff)

lemma find_empty_Some: "find_empty st = Some i \<Longrightarrow> i < 8 \<and> \<not> sTexInited st ! i"
  by (auto simp: find_empty_def find_Some_iff)

lemma find_hit_Some:
  "find_hit st k = Some i \<Longrightarrow> i < 8 \<and> sTexInited st ! i \<and> sCachedSpecies st ! i = k"
  by (auto simp: find_hit_def find_Some_iff)

lemma decodeSpriteSlot_fail:
  "fst (decodeSpriteSlot rom prof fr species slot grayscale st) = 0 \<Longrightarrow>
     decodeSpriteSlot rom prof fr species slot grayscale st = (0, st)"
  unfolding decodeSpriteSlot_def Let_def split_beta
  by (auto split: if_splits)

lemma decodeSpriteSlot_ret:
  "fst (decodeSpriteSlot rom prof fr species slot grayscale st) = 0
   \<or> fst (decodeSpriteSlot rom prof fr species slot grayscale st) = 1"
  unfolding decodeSpriteSlot_def Let_def split_beta
  by auto

lemma decodeSpriteSlot_flags:
  "sTexInited (snd (decodeSpriteSlot rom prof fr species slot grayscale st))
     = (if fst (decodeSpriteSlot rom prof fr species slot grayscale st) = 0
        then sTexInited st else (sTexInited st)[slot := True])"
proof -
  have id: "sTexInited st ! slot \<Longrightarrow> (sTexInited st)[slot := True] = sTexInited st"
    by (metis list_update_id)
  show ?thesis
    unfolding decodeSpriteSlot_def Let_def split_beta
    by (auto simp: id)
qed

lemma decodeSpriteSlot_keys:
  "sCachedSpecies (snd (decodeSpriteSlot rom prof fr species slot grayscale st))
     = sCachedSpecies st"
  unfolding decodeSpriteSlot_def Let_def split_beta
  by auto

lemma decodeSpriteSlot_cursor:
  "sNextEvict (snd (decodeSpriteSlot rom prof fr species slot grayscale st)) = sNextEvict st"
  unfolding decodeSpriteSlot_def Let_def split_beta
  by auto

lemma decodeSpriteSlot_tex_other:
  "i \<noteq> slot \<Longrightarrow>
     sSpriteTex (snd (decodeSpriteSlot rom prof fr species slot grayscale st)) ! i
       = sSpriteTex st ! i"
  unfolding decodeSpriteSlot_def Let_def split_beta
  by auto

lemma decodeSpriteSlot_tex_len:
  "length (sSpriteTex (snd (decodeSpriteSlot rom prof fr species slot grayscale st)))
     = length (sSpriteTex st)"
  unfolding decodeSpriteSlot_def Let_def split_beta
  by auto

lemma decodeSpriteSlot_ret_indep:
  "fst (decodeSpriteSlot rom prof fr species slot grayscale st)
     = fst (decodeSpriteSlot rom prof fr species slot' grayscale' st')"
  unfolding decodeSpriteSlot_def Let_def split_beta
  by (simp add: decompLZ77_def decompLZ77_locals_def split_beta)

definition rom_zero :: mem where "rom_zero = (\<lambda>a. 0)"
definition frame_zero :: frame where "frame_zero = \<lparr> decomp0 = zero_buf, palRaw0 = zero_buf \<rparr>"

definition tex_of :: "u32 \<Rightarrow> u32 list" where
  "tex_of p = replicate 4096 p"

definition full_cache :: sprite_cache where
  "full_cache = \<lparr> sSpriteTex = [tex_of 1, tex_of 2, tex_of 3, tex_of 4,
                                  tex_of 5, tex_of 6, tex_of 7, tex_of 8],
                   sCachedSpecies = [1, 2, 3, 4, 5, 6, 7, 8],
                   sTexInited = [True, True, True, True, True, True, True, True],
                   sNextEvict = 0 \<rparr>"

subsection \<open>Effect of one request\<close>

lemma decode_into_fail:
  "fst (decodeSpriteSlot rom prof fr species i grayscale st) = 0 \<Longrightarrow>
     decode_into rom prof fr species grayscale k i st = (None, st)"
  by (simp add: decode_into_def decodeSpriteSlot_fail)

lemma decode_into_cursor:
  "sNextEvict (snd (decode_into rom prof fr species grayscale k i st)) = sNextEvict st"
  using decodeSpriteSlot_cursor [of rom prof fr species i grayscale st]
  by (simp add: decode_into_def split_beta)

lemma decode_into_ret:
  "fst (decode_into rom prof fr species grayscale k i st)
     = (if fst (decodeSpriteSlot rom prof fr species i grayscale st) \<noteq> 0 then Some i else None)"
  by (simp add: decode_into_def split_beta)

lemma decode_into_keys:
  "sCachedSpecies (snd (decode_into rom prof fr species grayscale k i st))
     = (if fst (decodeSpriteSlot rom prof fr species i grayscale st) \<noteq> 0
        then (sCachedSpecies st)[i := k] else sCachedSpecies st)"
  using decodeSpriteSlot_keys [of rom prof fr species i grayscale st]
  by (simp add: decode_into_def split_beta)

lemma decode_into_flags:
  "sTexInited (snd (decode_into rom prof fr species grayscale k i st))
     = (if fst (decodeSpriteSlot rom prof fr species i grayscale st) \<noteq> 0
        then (sTexInited st)[i := True] else sTexInited st)"
  using decodeSpriteSlot_flags [of rom prof fr species i grayscale st]
  by (simp add: decode_into_def split_beta)

lemma decode_into_tex_other:
  "j \<noteq> i \<Longrightarrow>
     sSpriteTex (snd (decode_into rom prof fr species grayscale k i st)) ! j = sSpriteTex st ! j"
  using decodeSpriteSlot_tex_other [of j i rom prof fr species grayscale st]
  by (simp add: decode_into_def split_beta)

lemma decode_into_tex_len:
  "length (sSpriteTex (snd (decode_into rom prof fr species grayscale k i st)))
     = length (sSpriteTex st)"
  using decodeSpriteSlot_tex_len [of rom prof fr species i grayscale st]
  by (simp add: decode_into_def split_beta)

lemma findOrDecode_evict:
  assumes "find_hit st (cache_key species grayscale) = None" "find_empty st = None"
  shows "findOrDecode rom prof fr species grayscale st
           = decode_into rom prof fr species grayscale (cache_key species grayscale)
               (sNextEvict st) (st\<lparr>sNextEvict := (sNextEvict st + 1) mod 8\<rparr>)"
  using assms by (simp add: findOrDecode_def Let_def)

lemma findOrDecode_no_evict_cursor:
  assumes "\<not> takes_evict_path st (cache_key species grayscale)"
  shows "sNextEvict (snd (findOrDecode rom prof fr species grayscale st)) = sNextEvict st"
proof (cases "find_hit st (cache_key species grayscale)")
  case (Some i)
  then show ?thesis by (simp add: findOrDecode_def)
next
  case None
  with assms obtain i where "find_empty st = Some i"
    by (auto simp: takes_evict_path_def)
  with None show ?thesis by (simp add: findOrDecode_def decode_into_cursor)
qed

lemma findOrDecode_wf:
  assumes "cache_wf st"
  shows "cache_wf (snd (findOrDecode rom prof fr species grayscale st))"
proof (cases "find_hit st (cache_key species grayscale)")
  case (Some i)
  with assms show ?thesis by (simp add: findOrDecode_def)
next
  case None
  show ?thesis
  proof (cases "find_empty st")
    case (Some i)
    with None assms show ?thesis
      by (simp add: findOrDecode_def cache_wf_def decode_into_cursor decode_into_keys
          decode_into_flags decode_into_tex_len)
  next
    case N2: None
    with None assms show ?thesis
      by (simp add: findOrDecode_def Let_def cache_wf_def decode_into_cursor decode_into_keys
          decode_into_flags decode_into_tex_len)
  qed
qed

lemma run_requests_wf:
  "cache_wf st \<Longrightarrow> cache_wf (run_requests rom prof fr reqs st)"
  by (induction reqs arbitrary: st) (auto simp: findOrDecode_wf)

lemma run_requests_no_evict_cursor:
  "never_evicts rom prof fr reqs st \<Longrightarrow>
     sNextEvict (run_requests rom prof fr reqs st) = sNextEvict st"
  by (induction reqs arbitrary: st) (auto simp: findOrDecode_no_evict_cursor)

lemma initial_cache_wf: "cache_wf initial_cache"
  by (simp add: cache_wf_def initial_cache_def)

text \<open>
  C2, as the code has it. When every slot is in use, no slot holds the requested key and
  \<^verbatim>\<open>decodeSpriteSlot\<close> returns 0 for the slot under the eviction cursor,
  \<^verbatim>\<open>findOrDecode\<close> returns \<^verbatim>\<open>NULL\<close> and the only change of state is the cursor,
  advanced by one modulo 8: the textures, the keys and the in-use flags are what they
  were. The slot chosen for eviction keeps its image under its old key, and no slot holds
  the new key.
\<close>

theorem findOrDecode_failed_eviction_keeps_slot:
  assumes full: "\<forall>i<8. sTexInited st ! i"
    and miss: "\<forall>i<8. sCachedSpecies st ! i \<noteq> cache_key species grayscale"
    and fails: "fst (decodeSpriteSlot rom prof fr species (sNextEvict st) grayscale
                       (st\<lparr>sNextEvict := (sNextEvict st + 1) mod 8\<rparr>)) = 0"
  shows "findOrDecode rom prof fr species grayscale st
           = (None, st\<lparr>sNextEvict := (sNextEvict st + 1) mod 8\<rparr>)
       \<and> find_hit (snd (findOrDecode rom prof fr species grayscale st))
                   (cache_key species grayscale) = None
       \<and> find_empty (snd (findOrDecode rom prof fr species grayscale st)) = None"
proof -
  have e: "find_empty st = None" using full by (simp add: find_empty_None)
  have h: "find_hit st (cache_key species grayscale) = None"
    using miss by (simp add: find_hit_None)
  have r: "findOrDecode rom prof fr species grayscale st
           = (None, st\<lparr>sNextEvict := (sNextEvict st + 1) mod 8\<rparr>)"
    using fails by (simp add: findOrDecode_evict [OF h e] decode_into_fail)
  have h': "find_hit (snd (findOrDecode rom prof fr species grayscale st))
                   (cache_key species grayscale) = None"
    using miss by (simp add: r find_hit_None)
  have e': "find_empty (snd (findOrDecode rom prof fr species grayscale st)) = None"
    using full by (simp add: r find_empty_None)
  from r h' e' show ?thesis by blast
qed

lemma full_cache_decode_fails:
  "fst (decodeSpriteSlot rom_zero firered_profile frame_zero 9 (sNextEvict full_cache) False
          (full_cache\<lparr>sNextEvict := (sNextEvict full_cache + 1) mod 8\<rparr>)) = 0"
  by (simp add: decodeSpriteSlot_def rom_zero_def rd32_def)

lemma lt8_cases: "i < 8 \<Longrightarrow> i = 0 \<or> i = 1 \<or> i = 2 \<or> i = 3 \<or> i = 4 \<or> i = 5 \<or> i = 6 \<or> i = (7::nat)"
  by arith

theorem findOrDecode_failed_eviction_keeps_slot_witness:
  "fst (decodeSpriteSlot rom_zero firered_profile frame_zero 9 0 False
          (full_cache\<lparr>sNextEvict := 1\<rparr>)) = 0
   \<and> findOrDecode rom_zero firered_profile frame_zero 9 False full_cache
       = (None, full_cache\<lparr>sNextEvict := 1\<rparr>)"
proof -
  have full: "\<forall>i<8. sTexInited full_cache ! i"
  proof (intro allI impI)
    fix i :: nat assume "i < 8"
    then have "i = 0 \<or> i = 1 \<or> i = 2 \<or> i = 3 \<or> i = 4 \<or> i = 5 \<or> i = 6 \<or> i = 7"
      by (rule lt8_cases)
    then show "sTexInited full_cache ! i" by (auto simp: full_cache_def)
  qed
  have miss: "\<forall>i<8. sCachedSpecies full_cache ! i \<noteq> cache_key 9 False"
  proof (intro allI impI)
    fix i :: nat assume "i < 8"
    then have "i = 0 \<or> i = 1 \<or> i = 2 \<or> i = 3 \<or> i = 4 \<or> i = 5 \<or> i = 6 \<or> i = 7"
      by (rule lt8_cases)
    then show "sCachedSpecies full_cache ! i \<noteq> cache_key 9 False"
      by (auto simp: full_cache_def cache_key_def)
  qed
  note T = findOrDecode_failed_eviction_keeps_slot [OF full miss full_cache_decode_fails]
  have c: "sNextEvict full_cache = 0" by (simp add: full_cache_def)
  have r: "findOrDecode rom_zero firered_profile frame_zero 9 False full_cache
       = (None, full_cache\<lparr>sNextEvict := 1\<rparr>)"
    using T [THEN conjunct1] by (simp add: c)
  have f: "fst (decodeSpriteSlot rom_zero firered_profile frame_zero 9 0 False
          (full_cache\<lparr>sNextEvict := 1\<rparr>)) = 0"
    using full_cache_decode_fails by (simp add: c)
  from f r show ?thesis by blast
qed

text \<open>
  The claim as the specification states it has the prior content of the slot discarded and
  the slot empty. After the failed request for species 9 on a full cache, slot 0 is still in
  use, still holds the image it held, under its old key 1, and a request for key 1 is a hit
  on slot 0.
\<close>

definition after_failed_evict :: sprite_cache where
  "after_failed_evict = snd (findOrDecode rom_zero firered_profile frame_zero 9 False full_cache)"

theorem failed_eviction_counterexample:
  "fst (findOrDecode rom_zero firered_profile frame_zero 9 False full_cache) = None
   \<and> sTexInited after_failed_evict ! 0 = True
   \<and> sCachedSpecies after_failed_evict ! 0 = 1
   \<and> sSpriteTex after_failed_evict ! 0 = sSpriteTex full_cache ! 0
   \<and> sSpriteTex after_failed_evict ! 0 = tex_of 1
   \<and> find_empty after_failed_evict = None
   \<and> fst (findOrDecode rom_zero firered_profile frame_zero 1 False after_failed_evict) = Some 0"
proof -
  have r: "findOrDecode rom_zero firered_profile frame_zero 9 False full_cache
             = (None, full_cache\<lparr>sNextEvict := 1\<rparr>)"
    by (simp add: findOrDecode_def find_hit_def find_empty_def full_cache_def decode_into_def
        decodeSpriteSlot_def rom_zero_def rd32_def upt_0_8 cache_key_def)
  have a: "after_failed_evict = full_cache\<lparr>sNextEvict := 1\<rparr>"
    by (simp add: after_failed_evict_def r)
  show ?thesis
    unfolding a r
    by (simp add: findOrDecode_def find_hit_def find_empty_def full_cache_def
        upt_0_8 cache_key_def)
qed

text \<open>
  A ROM on which every sprite decodes: the eight bytes \<open>10 01 00 00 00 00 00 08\<close>
  repeated. Both pointer tables of \<open>firered_profile\<close> start at an address that is 4
  modulo 8, so every table entry reads \<open>0x08000000\<close>, which points at offset 0, where an
  LZ77 header declares one byte.
\<close>

definition rom_demo :: mem where
  "rom_demo = (\<lambda>a. [0x10, 0x01, 0x00, 0x00, 0x00, 0x00, 0x00, 0x08] ! (a mod 8))"

lemma rom_demo_ptr:
  "rd32 rom_demo (unat (spriteTable firered_profile) + n * 8) = 0x08000000"
  "rd32 rom_demo (unat (paletteTable firered_profile) + n * 8) = 0x08000000"
  by (simp_all add: rd32_def rom_demo_def firered_profile_def mod_Suc)

lemma rom_demo_lz:
  "fst (decompLZ77 (offset_view rom_demo 0) d 4096) = 1"
  by (simp add: decompLZ77_def decompLZ77_locals_def split_beta lz_header_def lz_size_def
      rd32_def offset_view_def rom_demo_def)

lemma rom_demo_decodes:
  "fst (decodeSpriteSlot rom_demo firered_profile fr species slot grayscale st) = 1"
  by (simp add: decodeSpriteSlot_def rom_demo_ptr rom_demo_lz split_beta)


lemma findOrDecode_fill:
  assumes h: "find_hit st (cache_key species grayscale) = None"
    and e: "find_empty st = Some i"
    and ok: "fst (decodeSpriteSlot rom prof fr species i grayscale st) \<noteq> 0"
  shows "sTexInited (snd (findOrDecode rom prof fr species grayscale st))
           = (sTexInited st)[i := True]"
    and "sCachedSpecies (snd (findOrDecode rom prof fr species grayscale st))
           = (sCachedSpecies st)[i := cache_key species grayscale]"
    and "\<not> takes_evict_path st (cache_key species grayscale)"
  using h e ok
  by (simp_all add: findOrDecode_def decode_into_flags decode_into_keys takes_evict_path_def)

subsection \<open>What a successful decode leaves in the slot\<close>

text \<open>
  The three checks of \<^verbatim>\<open>decodeSpriteSlot\<close> that precede every write: both table
  entries carry the address-space marker \<open>0x08\<close> in their top byte and the tile data
  decompresses to a non-zero size. \<open>decoded_tiles\<close> is the array \<^verbatim>\<open>decomp\<close> after the
  decompression, \<open>decoded_palette\<close> the sixteen colours, \<open>decoded_image\<close> the texture data
  the tile walk produces from them.
\<close>

definition sprite_decodes :: "mem \<Rightarrow> RomProfile \<Rightarrow> frame \<Rightarrow> u16 \<Rightarrow> bool" where
  "sprite_decodes rom prof fr species \<longleftrightarrow>
     drop_bit 24 (rd32 rom (unat (spriteTable prof) + unat species * 8)) = 0x08
   \<and> drop_bit 24 (rd32 rom (unat (paletteTable prof) + unat species * 8)) = 0x08
   \<and> fst (decompLZ77
             (offset_view rom
                (unat (rd32 rom (unat (spriteTable prof) + unat species * 8) AND 0x01FFFFFF)))
             (decomp0 fr) 4096) \<noteq> 0"

definition decoded_tiles :: "mem \<Rightarrow> RomProfile \<Rightarrow> frame \<Rightarrow> u16 \<Rightarrow> buf" where
  "decoded_tiles rom prof fr species =
     snd (decompLZ77
            (offset_view rom
               (unat (rd32 rom (unat (spriteTable prof) + unat species * 8) AND 0x01FFFFFF)))
            (decomp0 fr) 4096)"

definition decoded_palette :: "mem \<Rightarrow> RomProfile \<Rightarrow> frame \<Rightarrow> u16 \<Rightarrow> bool \<Rightarrow> u32 list" where
  "decoded_palette rom prof fr species grayscale =
     (let palOff = rd32 rom (unat (paletteTable prof) + unat species * 8) AND 0x01FFFFFF;
          (palSize, palRaw) = decompLZ77 (offset_view rom (unat palOff)) (palRaw0 fr) 64;
          palSrc = (if palSize \<ge> 32 then buf_view palRaw else offset_view rom (unat palOff))
      in build_palette palSrc grayscale)"

definition decoded_image :: "mem \<Rightarrow> RomProfile \<Rightarrow> frame \<Rightarrow> u16 \<Rightarrow> bool \<Rightarrow> u32 list" where
  "decoded_image rom prof fr species grayscale =
     tile_walk (decoded_tiles rom prof fr species) (decoded_palette rom prof fr species grayscale)
       (replicate (64 * 64) 0)"

lemma decodeSpriteSlot_ok_iff:
  "(fst (decodeSpriteSlot rom prof fr species slot grayscale st) \<noteq> 0)
     = sprite_decodes rom prof fr species"
  unfolding decodeSpriteSlot_def sprite_decodes_def Let_def split_beta
  by auto

lemma decodeSpriteSlot_tex:
  "sprite_decodes rom prof fr species \<Longrightarrow>
     sSpriteTex (snd (decodeSpriteSlot rom prof fr species slot grayscale st))
       = (sSpriteTex st)[slot := decoded_image rom prof fr species grayscale]"
  unfolding decodeSpriteSlot_def sprite_decodes_def decoded_image_def decoded_tiles_def
    decoded_palette_def Let_def split_beta
  by auto

lemma decode_into_tex:
  "sprite_decodes rom prof fr species \<Longrightarrow>
     sSpriteTex (snd (decode_into rom prof fr species grayscale k i st))
       = (sSpriteTex st)[i := decoded_image rom prof fr species grayscale]"
  using decodeSpriteSlot_tex [of rom prof fr species i grayscale st]
  by (simp add: decode_into_def split_beta)

lemma decoded_image_length: "length (decoded_image rom prof fr species grayscale) = 4096"
  by (simp add: decoded_image_def tile_walk_length)

lemma decoded_image_pixel:
  "x < 64 \<Longrightarrow> y < 64 \<Longrightarrow>
     decoded_image rom prof fr species grayscale ! unat (texOffset (int x) (int y) 64)
       = decoded_palette rom prof fr species grayscale
           ! unat (pixel_nibble (decoded_tiles rom prof fr species) x y)"
  unfolding decoded_image_def by (rule tile_walk_pixel) simp_all

text \<open>
  C7, as the code has it. Start from the empty cache (cursor 0) and make any sequence of
  requests none of which takes the eviction path. If afterwards all eight slots are in use
  and a further key is in none of them, the cursor is still 0 and the request for that key
  chooses slot 0 and moves the cursor to 1, whether the decode succeeds or not. Slot 0 is
  replaced only when the sprite decodes: the request then returns slot 0, which holds the
  new key and the new image, whose pixel \<open>(x, y)\<close> is the palette colour of that pixel's
  nibble in the decompressed tile data. When the sprite does not decode, the request
  returns \<^verbatim>\<open>NULL\<close> and nothing is evicted: the state is what it was but for the cursor,
  so slot 0 keeps its key and its image. Slots 1 to 7 are untouched either way. In any
  state, a request that takes the eviction path advances the cursor by one modulo 8,
  whatever the decode returns.
\<close>

theorem round_robin_eviction:
  assumes ne: "never_evicts rom prof fr reqs initial_cache"
    and st: "st = run_requests rom prof fr reqs initial_cache"
    and full: "\<forall>i<8. sTexInited st ! i"
    and miss: "\<forall>i<8. sCachedSpecies st ! i \<noteq> cache_key species grayscale"
  shows "sNextEvict st = 0
       \<and> sNextEvict (snd (findOrDecode rom prof fr species grayscale st)) = 1
       \<and> fst (findOrDecode rom prof fr species grayscale st)
           = (if sprite_decodes rom prof fr species then Some 0 else None)
       \<and> (sprite_decodes rom prof fr species \<longrightarrow>
            sCachedSpecies (snd (findOrDecode rom prof fr species grayscale st)) ! 0
              = cache_key species grayscale
          \<and> sTexInited (snd (findOrDecode rom prof fr species grayscale st)) ! 0
          \<and> sSpriteTex (snd (findOrDecode rom prof fr species grayscale st)) ! 0
              = decoded_image rom prof fr species grayscale
          \<and> length (decoded_image rom prof fr species grayscale) = 4096
          \<and> (\<forall>x<64. \<forall>y<64.
                decoded_image rom prof fr species grayscale ! unat (texOffset (int x) (int y) 64)
                  = decoded_palette rom prof fr species grayscale
                      ! unat (pixel_nibble (decoded_tiles rom prof fr species) x y)))
       \<and> (\<not> sprite_decodes rom prof fr species \<longrightarrow>
            snd (findOrDecode rom prof fr species grayscale st) = st\<lparr>sNextEvict := 1\<rparr>)
       \<and> (\<forall>i. 0 < i \<and> i < 8 \<longrightarrow>
              sCachedSpecies (snd (findOrDecode rom prof fr species grayscale st)) ! i
                = sCachedSpecies st ! i
            \<and> sSpriteTex (snd (findOrDecode rom prof fr species grayscale st)) ! i
                = sSpriteTex st ! i
            \<and> sTexInited (snd (findOrDecode rom prof fr species grayscale st)) ! i)
       \<and> (\<forall>s sp g. (\<forall>i<8. sTexInited s ! i) \<and> (\<forall>i<8. sCachedSpecies s ! i \<noteq> cache_key sp g)
              \<longrightarrow> sNextEvict (snd (findOrDecode rom prof fr sp g s)) = (sNextEvict s + 1) mod 8)"
proof -
  let ?k = "cache_key species grayscale"
  let ?R = "findOrDecode rom prof fr species grayscale st"
  let ?st1 = "st\<lparr>sNextEvict := 1\<rparr>"
  let ?ok = "sprite_decodes rom prof fr species"
  have c0: "sNextEvict st = 0"
    using run_requests_no_evict_cursor [OF ne] by (simp add: st initial_cache_def)
  have wf: "cache_wf st"
    unfolding st by (rule run_requests_wf) (rule initial_cache_wf)
  have e: "find_empty st = None" using full by (simp add: find_empty_None)
  have h: "find_hit st ?k = None" using miss by (simp add: find_hit_None)
  have R: "?R = decode_into rom prof fr species grayscale ?k 0 ?st1"
    using findOrDecode_evict [OF h e, of rom prof fr] by (simp add: c0)
  note ok = decodeSpriteSlot_ok_iff
  have c1: "sNextEvict (snd ?R) = 1"
    by (simp add: R decode_into_cursor)
  have ret: "fst ?R = (if ?ok then Some 0 else None)"
    by (simp add: R decode_into_ret ok)
  have succ: "?ok \<longrightarrow>
            sCachedSpecies (snd ?R) ! 0 = ?k
          \<and> sTexInited (snd ?R) ! 0
          \<and> sSpriteTex (snd ?R) ! 0 = decoded_image rom prof fr species grayscale
          \<and> length (decoded_image rom prof fr species grayscale) = 4096
          \<and> (\<forall>x<64. \<forall>y<64.
                decoded_image rom prof fr species grayscale ! unat (texOffset (int x) (int y) 64)
                  = decoded_palette rom prof fr species grayscale
                      ! unat (pixel_nibble (decoded_tiles rom prof fr species) x y))"
  proof
    assume d: ?ok
    have k: "sCachedSpecies (snd ?R) ! 0 = ?k"
      using wf d by (simp add: R decode_into_keys ok cache_wf_def)
    have f: "sTexInited (snd ?R) ! 0"
      using wf d by (simp add: R decode_into_flags ok cache_wf_def)
    have t: "sSpriteTex (snd ?R) ! 0 = decoded_image rom prof fr species grayscale"
      using wf by (simp add: R decode_into_tex [OF d] cache_wf_def)
    have p: "\<forall>x<64. \<forall>y<64.
                decoded_image rom prof fr species grayscale ! unat (texOffset (int x) (int y) 64)
                  = decoded_palette rom prof fr species grayscale
                      ! unat (pixel_nibble (decoded_tiles rom prof fr species) x y)"
      using decoded_image_pixel by blast
    show "sCachedSpecies (snd ?R) ! 0 = ?k
          \<and> sTexInited (snd ?R) ! 0
          \<and> sSpriteTex (snd ?R) ! 0 = decoded_image rom prof fr species grayscale
          \<and> length (decoded_image rom prof fr species grayscale) = 4096
          \<and> (\<forall>x<64. \<forall>y<64.
                decoded_image rom prof fr species grayscale ! unat (texOffset (int x) (int y) 64)
                  = decoded_palette rom prof fr species grayscale
                      ! unat (pixel_nibble (decoded_tiles rom prof fr species) x y))"
      by (intro conjI) (rule k f t decoded_image_length p)+
  qed
  have fail: "\<not> ?ok \<longrightarrow> snd ?R = ?st1"
  proof
    assume "\<not> ?ok"
    then have "fst (decodeSpriteSlot rom prof fr species 0 grayscale ?st1) = 0"
      using decodeSpriteSlot_ok_iff [of rom prof fr species 0 grayscale ?st1] by blast
    then show "snd ?R = ?st1" by (simp add: R decode_into_fail)
  qed
  have others: "\<forall>i. 0 < i \<and> i < 8 \<longrightarrow>
              sCachedSpecies (snd ?R) ! i = sCachedSpecies st ! i
            \<and> sSpriteTex (snd ?R) ! i = sSpriteTex st ! i
            \<and> sTexInited (snd ?R) ! i"
    using full by (simp add: R decode_into_keys decode_into_flags decode_into_tex_other)
  have gen: "sNextEvict (snd (findOrDecode rom prof fr sp g s)) = (sNextEvict s + 1) mod 8"
    if a: "(\<forall>i<8. sTexInited s ! i) \<and> (\<forall>i<8. sCachedSpecies s ! i \<noteq> cache_key sp g)"
    for s sp g
  proof -
    have "find_empty s = None" using a by (simp add: find_empty_None)
    moreover have "find_hit s (cache_key sp g) = None" using a by (simp add: find_hit_None)
    ultimately show ?thesis
      by (simp add: findOrDecode_evict decode_into_cursor)
  qed
  then have gen': "\<forall>s sp g. (\<forall>i<8. sTexInited s ! i)
                     \<and> (\<forall>i<8. sCachedSpecies s ! i \<noteq> cache_key sp g)
              \<longrightarrow> sNextEvict (snd (findOrDecode rom prof fr sp g s)) = (sNextEvict s + 1) mod 8"
    by blast
  show ?thesis
    by (intro conjI) (rule c0 c1 ret succ fail others gen')+
qed

lemma lz_single_literal:
  assumes "src 0 = 0x10" "src 1 = 1" "src 2 = 0" "src 3 = 0" "src 4 = 0" "1 \<le> maxOut"
  shows "decompLZ77 src dst maxOut = (1, dst(0 := src 5))"
proof -
  have sz: "lz_size src = 1" using assms by (simp add: lz_size_bytes)
  have loc: "decompLZ77_locals src dst maxOut = (1, lz_while src 1 (4, 0, dst))"
    using decompLZ77_locals_ok [of src maxOut dst] assms by (simp add: sz)
  have c: "lz_chunk src 1 0 7 (5, 0, dst) = (6, 1, dst(0 := src 5))"
    by (simp add: lz_chunk_def)
  have b: "lz_bits src 1 0 7 (5, 0, dst) = (6, 1, dst(0 := src 5))"
    by (simp add: lz_bits_step c lz_bits_stop)
  have w: "lz_while src 1 (4, 0, dst) = (6, 1, dst(0 := src 5))"
    using assms(5) by (simp add: lz_while_step b lz_while_stop)
  show ?thesis by (simp add: decompLZ77_def loc w)
qed

text \<open>
  The ROM of the examples: \<open>rom_demo\<close> with three bytes changed. The sprite pointer of
  species 9 points at offset 8, where the stream decompresses to the byte \<open>0x43\<close> (the
  sprites of species 1 to 8 decompress to the byte 0), and the sprite pointer of species 10
  has top byte 0, so that species 10 does not decode.
\<close>

definition rom_evict :: mem where
  "rom_evict = rom_demo(13 := 0x43, 0x2350F4 := 0x08, 0x2350FF := 0x00)"

lemma rom_evict_low:
  "rom_evict 0 = 0x10" "rom_evict 1 = 1" "rom_evict (Suc 0) = 1" "rom_evict 2 = 0" "rom_evict 3 = 0" "rom_evict 4 = 0"
  "rom_evict 5 = 0" "rom_evict 6 = 0" "rom_evict 7 = 8"
  "rom_evict 8 = 0x10" "rom_evict 9 = 1" "rom_evict 10 = 0" "rom_evict 11 = 0" "rom_evict 12 = 0"
  "rom_evict 13 = 0x43"
  by (simp_all add: rom_evict_def rom_demo_def)

lemma rom_evict_sprite_ptr:
  "rd32 rom_evict (unat (spriteTable firered_profile) + unat (1 :: u16) * 8) = 0x08000000"
  "rd32 rom_evict (unat (spriteTable firered_profile) + unat (2 :: u16) * 8) = 0x08000000"
  "rd32 rom_evict (unat (spriteTable firered_profile) + unat (3 :: u16) * 8) = 0x08000000"
  "rd32 rom_evict (unat (spriteTable firered_profile) + unat (4 :: u16) * 8) = 0x08000000"
  "rd32 rom_evict (unat (spriteTable firered_profile) + unat (5 :: u16) * 8) = 0x08000000"
  "rd32 rom_evict (unat (spriteTable firered_profile) + unat (6 :: u16) * 8) = 0x08000000"
  "rd32 rom_evict (unat (spriteTable firered_profile) + unat (7 :: u16) * 8) = 0x08000000"
  "rd32 rom_evict (unat (spriteTable firered_profile) + unat (8 :: u16) * 8) = 0x08000000"
  "rd32 rom_evict (unat (spriteTable firered_profile) + unat (9 :: u16) * 8) = 0x08000008"
  "rd32 rom_evict (unat (spriteTable firered_profile) + unat (10 :: u16) * 8) = 0"
  by (simp_all add: rd32_def rom_evict_def rom_demo_def firered_profile_def)

lemma rom_evict_palette_ptr:
  "rd32 rom_evict (unat (paletteTable firered_profile) + unat (1 :: u16) * 8) = 0x08000000"
  "rd32 rom_evict (unat (paletteTable firered_profile) + unat (2 :: u16) * 8) = 0x08000000"
  "rd32 rom_evict (unat (paletteTable firered_profile) + unat (3 :: u16) * 8) = 0x08000000"
  "rd32 rom_evict (unat (paletteTable firered_profile) + unat (4 :: u16) * 8) = 0x08000000"
  "rd32 rom_evict (unat (paletteTable firered_profile) + unat (5 :: u16) * 8) = 0x08000000"
  "rd32 rom_evict (unat (paletteTable firered_profile) + unat (6 :: u16) * 8) = 0x08000000"
  "rd32 rom_evict (unat (paletteTable firered_profile) + unat (7 :: u16) * 8) = 0x08000000"
  "rd32 rom_evict (unat (paletteTable firered_profile) + unat (8 :: u16) * 8) = 0x08000000"
  "rd32 rom_evict (unat (paletteTable firered_profile) + unat (9 :: u16) * 8) = 0x08000000"
  by (simp_all add: rd32_def rom_evict_def rom_demo_def firered_profile_def)

lemma rom_evict_stream0:
  "decompLZ77 (offset_view rom_evict 0) dst 4096 = (1, dst(0 := 0))"
  "decompLZ77 (offset_view rom_evict 0) dst 64 = (1, dst(0 := 0))"
  using lz_single_literal [of "offset_view rom_evict 0" 4096 dst]
    lz_single_literal [of "offset_view rom_evict 0" 64 dst]
  by (simp_all add: offset_view_def rom_evict_low)

lemma rom_evict_stream8:
  "decompLZ77 (offset_view rom_evict 8) dst 4096 = (1, dst(0 := 0x43))"
  using lz_single_literal [of "offset_view rom_evict 8" 4096 dst]
  by (simp add: offset_view_def rom_evict_low)


lemma rom_evict_decodes:
  "sprite_decodes rom_evict firered_profile frame_zero 1"
  "sprite_decodes rom_evict firered_profile frame_zero 2"
  "sprite_decodes rom_evict firered_profile frame_zero 3"
  "sprite_decodes rom_evict firered_profile frame_zero 4"
  "sprite_decodes rom_evict firered_profile frame_zero 5"
  "sprite_decodes rom_evict firered_profile frame_zero 6"
  "sprite_decodes rom_evict firered_profile frame_zero 7"
  "sprite_decodes rom_evict firered_profile frame_zero 8"
  "sprite_decodes rom_evict firered_profile frame_zero 9"
  unfolding sprite_decodes_def rom_evict_sprite_ptr rom_evict_palette_ptr
  by (simp_all add: rom_evict_stream0 rom_evict_stream8)

lemma rom_evict_fails: "\<not> sprite_decodes rom_evict firered_profile frame_zero 10"
  unfolding sprite_decodes_def rom_evict_sprite_ptr
  by simp

lemma rom_evict_tiles:
  "decoded_tiles rom_evict firered_profile frame_zero 1 = zero_buf(0 := 0)"
  "decoded_tiles rom_evict firered_profile frame_zero 9 = zero_buf(0 := 0x43)"
  unfolding decoded_tiles_def rom_evict_sprite_ptr
  by (simp_all add: rom_evict_stream0 rom_evict_stream8 frame_zero_def)

lemma rom_evict_palsrc:
  "decoded_palette rom_evict firered_profile frame_zero 1 g = build_palette (offset_view rom_evict 0) g"
  "decoded_palette rom_evict firered_profile frame_zero 9 g = build_palette (offset_view rom_evict 0) g"
  unfolding decoded_palette_def rom_evict_palette_ptr
  by (simp_all add: rom_evict_stream0 split_beta)

lemma build_palette_demo:
  "build_palette palSrc g ! 0 = 0"
  "build_palette palSrc g ! 3 = palette_entry (rd16 palSrc 6) g"
  "build_palette palSrc g ! 4 = palette_entry (rd16 palSrc 8) g"
  by (simp_all add: build_palette_def upt_rec)

lemma rom_evict_palette:
  "decoded_palette rom_evict firered_profile frame_zero 9 False ! 3 = 0x000010FF"
  "decoded_palette rom_evict firered_profile frame_zero 9 False ! 4 = 0x804000FF"
  "decoded_palette rom_evict firered_profile frame_zero 1 False ! 0 = 0"
  unfolding rom_evict_palsrc build_palette_demo
  by (simp_all add: offset_view_def rd16_def
      rom_evict_low palette_entry_def pal_rgb_def pack_rgba_def chan5_def)

lemma findOrDecode_fill_tex:
  assumes h: "find_hit st (cache_key species grayscale) = None"
    and e: "find_empty st = Some i"
    and ok: "sprite_decodes rom prof fr species"
  shows "sSpriteTex (snd (findOrDecode rom prof fr species grayscale st))
           = (sSpriteTex st)[i := decoded_image rom prof fr species grayscale]"
  using h e by (simp add: findOrDecode_def decode_into_tex [OF ok])

text \<open>Eight requests for eight distinct keys, each of which decodes.\<close>

definition demo_reqs :: "(u16 \<times> bool) list" where
  "demo_reqs = [(1, False), (2, False), (3, False), (4, False),
                (5, False), (6, False), (7, False), (8, False)]"

lemma demo_fill:
  assumes dec: "sprite_decodes rom prof fr 1" "sprite_decodes rom prof fr 2"
    "sprite_decodes rom prof fr 3" "sprite_decodes rom prof fr 4"
    "sprite_decodes rom prof fr 5" "sprite_decodes rom prof fr 6"
    "sprite_decodes rom prof fr 7" "sprite_decodes rom prof fr 8"
  shows "never_evicts rom prof fr demo_reqs initial_cache"
    and "sTexInited (run_requests rom prof fr demo_reqs initial_cache)
           = [True, True, True, True, True, True, True, True]"
    and "sCachedSpecies (run_requests rom prof fr demo_reqs initial_cache)
           = [1, 2, 3, 4, 5, 6, 7, 8]"
    and "sSpriteTex (run_requests rom prof fr demo_reqs initial_cache) ! 0
           = decoded_image rom prof fr 1 False"
proof -
  define s1 s2 s3 s4 s5 s6 s7 s8 where
    "s1 = snd (findOrDecode rom prof fr 1 False initial_cache)"
    and "s2 = snd (findOrDecode rom prof fr 2 False s1)"
    and "s3 = snd (findOrDecode rom prof fr 3 False s2)"
    and "s4 = snd (findOrDecode rom prof fr 4 False s3)"
    and "s5 = snd (findOrDecode rom prof fr 5 False s4)"
    and "s6 = snd (findOrDecode rom prof fr 6 False s5)"
    and "s7 = snd (findOrDecode rom prof fr 7 False s6)"
    and "s8 = snd (findOrDecode rom prof fr 8 False s7)"
  have f0: "sTexInited initial_cache = [False, False, False, False, False, False, False, False]"
    and k0: "sCachedSpecies initial_cache = [0, 0, 0, 0, 0, 0, 0, 0]"
    by (simp_all add: initial_cache_def replicate_8)
  have h1: "find_hit initial_cache (cache_key 1 False) = None"
    by (simp add: find_hit_def f0 k0 upt_0_8 cache_key_def)
  have e1: "find_empty initial_cache = Some 0"
    by (simp add: find_empty_def f0 upt_0_8)
  have d1: "fst (decodeSpriteSlot rom prof fr 1 0 False initial_cache) \<noteq> 0"
    using dec(1) by (simp only: decodeSpriteSlot_ok_iff)
  note S1 = findOrDecode_fill [OF h1 e1 d1, folded s1_def]
  have f1: "sTexInited s1 = [True, False, False, False, False, False, False, False]"
    unfolding S1(1) f0 by simp
  have k1: "sCachedSpecies s1 = [1, 0, 0, 0, 0, 0, 0, 0]"
    unfolding S1(2) k0 by (simp add: cache_key_def)
  have t1: "sSpriteTex s1 ! 0 = decoded_image rom prof fr 1 False"
    using findOrDecode_fill_tex [OF h1 e1 dec(1), folded s1_def]
    by (simp add: initial_cache_def)
  have h2: "find_hit s1 (cache_key 2 False) = None"
    by (simp add: find_hit_def f1 k1 upt_0_8 cache_key_def)
  have e2: "find_empty s1 = Some 1"
    by (simp add: find_empty_def f1 upt_0_8)
  have d2: "fst (decodeSpriteSlot rom prof fr 2 1 False s1) \<noteq> 0"
    using dec(2) by (simp only: decodeSpriteSlot_ok_iff)
  note S2 = findOrDecode_fill [OF h2 e2 d2, folded s2_def]
  have f2: "sTexInited s2 = [True, True, False, False, False, False, False, False]"
    unfolding S2(1) f1 by simp
  have k2: "sCachedSpecies s2 = [1, 2, 0, 0, 0, 0, 0, 0]"
    unfolding S2(2) k1 by (simp add: cache_key_def)
  have t2: "sSpriteTex s2 ! 0 = decoded_image rom prof fr 1 False"
    using findOrDecode_fill_tex [OF h2 e2 dec(2), folded s2_def] t1
    by simp
  have h3: "find_hit s2 (cache_key 3 False) = None"
    by (simp add: find_hit_def f2 k2 upt_0_8 cache_key_def)
  have e3: "find_empty s2 = Some 2"
    by (simp add: find_empty_def f2 upt_0_8)
  have d3: "fst (decodeSpriteSlot rom prof fr 3 2 False s2) \<noteq> 0"
    using dec(3) by (simp only: decodeSpriteSlot_ok_iff)
  note S3 = findOrDecode_fill [OF h3 e3 d3, folded s3_def]
  have f3: "sTexInited s3 = [True, True, True, False, False, False, False, False]"
    unfolding S3(1) f2 by simp
  have k3: "sCachedSpecies s3 = [1, 2, 3, 0, 0, 0, 0, 0]"
    unfolding S3(2) k2 by (simp add: cache_key_def)
  have t3: "sSpriteTex s3 ! 0 = decoded_image rom prof fr 1 False"
    using findOrDecode_fill_tex [OF h3 e3 dec(3), folded s3_def] t2
    by simp
  have h4: "find_hit s3 (cache_key 4 False) = None"
    by (simp add: find_hit_def f3 k3 upt_0_8 cache_key_def)
  have e4: "find_empty s3 = Some 3"
    by (simp add: find_empty_def f3 upt_0_8)
  have d4: "fst (decodeSpriteSlot rom prof fr 4 3 False s3) \<noteq> 0"
    using dec(4) by (simp only: decodeSpriteSlot_ok_iff)
  note S4 = findOrDecode_fill [OF h4 e4 d4, folded s4_def]
  have f4: "sTexInited s4 = [True, True, True, True, False, False, False, False]"
    unfolding S4(1) f3 by simp
  have k4: "sCachedSpecies s4 = [1, 2, 3, 4, 0, 0, 0, 0]"
    unfolding S4(2) k3 by (simp add: cache_key_def)
  have t4: "sSpriteTex s4 ! 0 = decoded_image rom prof fr 1 False"
    using findOrDecode_fill_tex [OF h4 e4 dec(4), folded s4_def] t3
    by simp
  have h5: "find_hit s4 (cache_key 5 False) = None"
    by (simp add: find_hit_def f4 k4 upt_0_8 cache_key_def)
  have e5: "find_empty s4 = Some 4"
    by (simp add: find_empty_def f4 upt_0_8)
  have d5: "fst (decodeSpriteSlot rom prof fr 5 4 False s4) \<noteq> 0"
    using dec(5) by (simp only: decodeSpriteSlot_ok_iff)
  note S5 = findOrDecode_fill [OF h5 e5 d5, folded s5_def]
  have f5: "sTexInited s5 = [True, True, True, True, True, False, False, False]"
    unfolding S5(1) f4 by simp
  have k5: "sCachedSpecies s5 = [1, 2, 3, 4, 5, 0, 0, 0]"
    unfolding S5(2) k4 by (simp add: cache_key_def)
  have t5: "sSpriteTex s5 ! 0 = decoded_image rom prof fr 1 False"
    using findOrDecode_fill_tex [OF h5 e5 dec(5), folded s5_def] t4
    by simp
  have h6: "find_hit s5 (cache_key 6 False) = None"
    by (simp add: find_hit_def f5 k5 upt_0_8 cache_key_def)
  have e6: "find_empty s5 = Some 5"
    by (simp add: find_empty_def f5 upt_0_8)
  have d6: "fst (decodeSpriteSlot rom prof fr 6 5 False s5) \<noteq> 0"
    using dec(6) by (simp only: decodeSpriteSlot_ok_iff)
  note S6 = findOrDecode_fill [OF h6 e6 d6, folded s6_def]
  have f6: "sTexInited s6 = [True, True, True, True, True, True, False, False]"
    unfolding S6(1) f5 by simp
  have k6: "sCachedSpecies s6 = [1, 2, 3, 4, 5, 6, 0, 0]"
    unfolding S6(2) k5 by (simp add: cache_key_def)
  have t6: "sSpriteTex s6 ! 0 = decoded_image rom prof fr 1 False"
    using findOrDecode_fill_tex [OF h6 e6 dec(6), folded s6_def] t5
    by simp
  have h7: "find_hit s6 (cache_key 7 False) = None"
    by (simp add: find_hit_def f6 k6 upt_0_8 cache_key_def)
  have e7: "find_empty s6 = Some 6"
    by (simp add: find_empty_def f6 upt_0_8)
  have d7: "fst (decodeSpriteSlot rom prof fr 7 6 False s6) \<noteq> 0"
    using dec(7) by (simp only: decodeSpriteSlot_ok_iff)
  note S7 = findOrDecode_fill [OF h7 e7 d7, folded s7_def]
  have f7: "sTexInited s7 = [True, True, True, True, True, True, True, False]"
    unfolding S7(1) f6 by simp
  have k7: "sCachedSpecies s7 = [1, 2, 3, 4, 5, 6, 7, 0]"
    unfolding S7(2) k6 by (simp add: cache_key_def)
  have t7: "sSpriteTex s7 ! 0 = decoded_image rom prof fr 1 False"
    using findOrDecode_fill_tex [OF h7 e7 dec(7), folded s7_def] t6
    by simp
  have h8: "find_hit s7 (cache_key 8 False) = None"
    by (simp add: find_hit_def f7 k7 upt_0_8 cache_key_def)
  have e8: "find_empty s7 = Some 7"
    by (simp add: find_empty_def f7 upt_0_8)
  have d8: "fst (decodeSpriteSlot rom prof fr 8 7 False s7) \<noteq> 0"
    using dec(8) by (simp only: decodeSpriteSlot_ok_iff)
  note S8 = findOrDecode_fill [OF h8 e8 d8, folded s8_def]
  have f8: "sTexInited s8 = [True, True, True, True, True, True, True, True]"
    unfolding S8(1) f7 by simp
  have k8: "sCachedSpecies s8 = [1, 2, 3, 4, 5, 6, 7, 8]"
    unfolding S8(2) k7 by (simp add: cache_key_def)
  have t8: "sSpriteTex s8 ! 0 = decoded_image rom prof fr 1 False"
    using findOrDecode_fill_tex [OF h8 e8 dec(8), folded s8_def] t7
    by simp
  have run: "run_requests rom prof fr demo_reqs initial_cache = s8"
    by (simp add: demo_reqs_def s1_def s2_def s3_def s4_def s5_def s6_def s7_def s8_def)
  show "never_evicts rom prof fr demo_reqs initial_cache"
    using S1(3) S2(3) S3(3) S4(3) S5(3) S6(3) S7(3) S8(3)
    by (simp add: demo_reqs_def flip: s1_def s2_def s3_def s4_def s5_def s6_def s7_def s8_def)
  show "sTexInited (run_requests rom prof fr demo_reqs initial_cache)
           = [True, True, True, True, True, True, True, True]"
    by (simp only: run f8)
  show "sCachedSpecies (run_requests rom prof fr demo_reqs initial_cache)
           = [1, 2, 3, 4, 5, 6, 7, 8]"
    by (simp only: run k8)
  show "sSpriteTex (run_requests rom prof fr demo_reqs initial_cache) ! 0
           = decoded_image rom prof fr 1 False"
    by (simp only: run t8)
qed

text \<open>The cache after the eight requests on \<open>rom_evict\<close>.\<close>

definition evict_full :: sprite_cache where
  "evict_full = run_requests rom_evict firered_profile frame_zero demo_reqs initial_cache"

lemma evict_full_facts:
  "never_evicts rom_evict firered_profile frame_zero demo_reqs initial_cache"
  "sTexInited evict_full = [True, True, True, True, True, True, True, True]"
  "sCachedSpecies evict_full = [1, 2, 3, 4, 5, 6, 7, 8]"
  "sSpriteTex evict_full ! 0 = decoded_image rom_evict firered_profile frame_zero 1 False"
  unfolding evict_full_def
  by (rule demo_fill [OF rom_evict_decodes(1-8)])+

lemma evict_full_cursor: "sNextEvict evict_full = 0"
  using run_requests_no_evict_cursor [OF evict_full_facts(1)]
  by (simp add: evict_full_def initial_cache_def)

lemma evict_full_all:
  "\<forall>i<8. sTexInited evict_full ! i"
proof (intro allI impI)
  fix i :: nat assume "i < 8"
  then have "i = 0 \<or> i = 1 \<or> i = 2 \<or> i = 3 \<or> i = 4 \<or> i = 5 \<or> i = 6 \<or> i = 7"
    by (rule lt8_cases)
  then show "sTexInited evict_full ! i" by (auto simp: evict_full_facts(2))
qed

lemma evict_full_miss:
  "\<forall>i<8. sCachedSpecies evict_full ! i \<noteq> cache_key 9 False"
  "\<forall>i<8. sCachedSpecies evict_full ! i \<noteq> cache_key 10 False"
proof -
  show "\<forall>i<8. sCachedSpecies evict_full ! i \<noteq> cache_key 9 False"
  proof (intro allI impI)
    fix i :: nat assume "i < 8"
    then have "i = 0 \<or> i = 1 \<or> i = 2 \<or> i = 3 \<or> i = 4 \<or> i = 5 \<or> i = 6 \<or> i = 7"
      by (rule lt8_cases)
    then show "sCachedSpecies evict_full ! i \<noteq> cache_key 9 False"
      by (auto simp: evict_full_facts(3) cache_key_def)
  qed
  show "\<forall>i<8. sCachedSpecies evict_full ! i \<noteq> cache_key 10 False"
  proof (intro allI impI)
    fix i :: nat assume "i < 8"
    then have "i = 0 \<or> i = 1 \<or> i = 2 \<or> i = 3 \<or> i = 4 \<or> i = 5 \<or> i = 6 \<or> i = 7"
      by (rule lt8_cases)
    then show "sCachedSpecies evict_full ! i \<noteq> cache_key 10 False"
      by (auto simp: evict_full_facts(3) cache_key_def)
  qed
qed

lemma texOffset_origin: "unat (texOffset 0 0 64) = 0" "unat (texOffset 1 0 64) = 1"
  by (simp_all add: texOffset_def mortonIdx_def)

lemma evict_full_old_pixel:
  "sSpriteTex evict_full ! 0 ! unat (texOffset 0 0 64) = 0"
proof -
  have "decoded_image rom_evict firered_profile frame_zero 1 False
          ! unat (texOffset (int 0) (int 0) 64)
        = decoded_palette rom_evict firered_profile frame_zero 1 False
            ! unat (pixel_nibble (decoded_tiles rom_evict firered_profile frame_zero 1) 0 0)"
    by (rule decoded_image_pixel) simp_all
  then show ?thesis
    by (simp add: evict_full_facts(4) rom_evict_tiles pixel_nibble_def zero_buf_def
        rom_evict_palette)
qed

text \<open>
  The witness: on \<open>rom_evict\<close>, after keys 1 to 8 have filled the cache, the request for
  species 9 returns slot 0 under key 9 with the cursor at 1. Pixel \<open>(0, 0)\<close> of slot 0 was 0
  (the image of species 1) and is now colour 3 of the palette, pixel \<open>(1, 0)\<close> colour 4;
  slot 1 still holds key 2.
\<close>

theorem round_robin_eviction_witness:
  "never_evicts rom_evict firered_profile frame_zero demo_reqs initial_cache
   \<and> sTexInited evict_full = [True, True, True, True, True, True, True, True]
   \<and> sCachedSpecies evict_full = [1, 2, 3, 4, 5, 6, 7, 8]
   \<and> sNextEvict evict_full = 0
   \<and> sprite_decodes rom_evict firered_profile frame_zero 9
   \<and> fst (findOrDecode rom_evict firered_profile frame_zero 9 False evict_full) = Some 0
   \<and> sNextEvict (snd (findOrDecode rom_evict firered_profile frame_zero 9 False evict_full)) = 1
   \<and> sCachedSpecies (snd (findOrDecode rom_evict firered_profile frame_zero 9 False evict_full)) ! 0
        = 9
   \<and> sSpriteTex evict_full ! 0 ! unat (texOffset 0 0 64) = 0
   \<and> sSpriteTex (snd (findOrDecode rom_evict firered_profile frame_zero 9 False evict_full)) ! 0
        ! unat (texOffset 0 0 64) = 0x000010FF
   \<and> sSpriteTex (snd (findOrDecode rom_evict firered_profile frame_zero 9 False evict_full)) ! 0
        ! unat (texOffset 1 0 64) = 0x804000FF
   \<and> sCachedSpecies (snd (findOrDecode rom_evict firered_profile frame_zero 9 False evict_full)) ! 1
        = 2"
proof -
  let ?R = "findOrDecode rom_evict firered_profile frame_zero 9 False evict_full"
  let ?img = "decoded_image rom_evict firered_profile frame_zero 9 False"
  note T = round_robin_eviction [OF evict_full_facts(1) evict_full_def evict_full_all
      evict_full_miss(1)]
  have ok: "sprite_decodes rom_evict firered_profile frame_zero 9" by (rule rom_evict_decodes(9))
  have c0: "sNextEvict evict_full = 0" by (rule T [THEN conjunct1])
  have c1: "sNextEvict (snd ?R) = 1" by (rule T [THEN conjunct2, THEN conjunct1])
  have r: "fst ?R = Some 0"
    using T [THEN conjunct2, THEN conjunct2, THEN conjunct1] ok by simp
  note S = T [THEN conjunct2, THEN conjunct2, THEN conjunct2, THEN conjunct1, THEN mp, OF ok]
  have k: "sCachedSpecies (snd ?R) ! 0 = 9"
    using S [THEN conjunct1] by (simp add: cache_key_def)
  have t: "sSpriteTex (snd ?R) ! 0 = ?img"
    by (rule S [THEN conjunct2, THEN conjunct2, THEN conjunct1])
  note P = S [THEN conjunct2, THEN conjunct2, THEN conjunct2, THEN conjunct2]
  have p00: "?img ! unat (texOffset (int 0) (int 0) 64)
               = decoded_palette rom_evict firered_profile frame_zero 9 False
                   ! unat (pixel_nibble (decoded_tiles rom_evict firered_profile frame_zero 9) 0 0)"
    by (rule P [rule_format, of 0 0]) simp_all
  have p10: "?img ! unat (texOffset (int 1) (int 0) 64)
               = decoded_palette rom_evict firered_profile frame_zero 9 False
                   ! unat (pixel_nibble (decoded_tiles rom_evict firered_profile frame_zero 9) 1 0)"
    by (rule P [rule_format, of 1 0]) simp_all
  have n0: "unat (pixel_nibble (decoded_tiles rom_evict firered_profile frame_zero 9) 0 0) = 3"
    by (simp add: rom_evict_tiles pixel_nibble_def)
  have n1: "unat (pixel_nibble (decoded_tiles rom_evict firered_profile frame_zero 9) (Suc 0) 0)
              = 4"
    by (simp add: rom_evict_tiles pixel_nibble_def)
  have x0: "sSpriteTex (snd ?R) ! 0 ! unat (texOffset 0 0 64) = 0x000010FF"
    using p00 by (simp add: t n0 rom_evict_palette)
  have x1: "sSpriteTex (snd ?R) ! 0 ! unat (texOffset 1 0 64) = 0x804000FF"
    using p10 by (simp add: t n1 rom_evict_palette)
  note O = T [THEN conjunct2, THEN conjunct2, THEN conjunct2, THEN conjunct2, THEN conjunct2,
      THEN conjunct1, THEN spec, of 1]
  have o: "sCachedSpecies (snd ?R) ! 1 = 2"
    using O by (simp add: evict_full_facts(3))
  show ?thesis
    by (intro conjI) (rule evict_full_facts(1) evict_full_facts(2) evict_full_facts(3) c0 ok r c1 k
        evict_full_old_pixel x0 x1 o)+
qed

text \<open>
  The claim as the specification states it has slot 0 evicted by the request for a ninth
  key. On \<open>rom_evict\<close> the sprite pointer of species 10 fails the address-space check.
  After the eight slots were filled with keys 1 to 8 without eviction, the request for
  species 10 returns \<^verbatim>\<open>NULL\<close> and evicts nothing: slot 0 is still in use, holds the image
  it held under its key 1, and a request for key 1 is a hit on slot 0. Only the cursor moved.
\<close>

definition after_evict_request :: sprite_cache where
  "after_evict_request
     = snd (findOrDecode rom_evict firered_profile frame_zero 10 False evict_full)"

theorem failed_request_evicts_nothing_counterexample:
  "never_evicts rom_evict firered_profile frame_zero demo_reqs initial_cache
   \<and> sTexInited evict_full = [True, True, True, True, True, True, True, True]
   \<and> sCachedSpecies evict_full = [1, 2, 3, 4, 5, 6, 7, 8]
   \<and> fst (findOrDecode rom_evict firered_profile frame_zero 10 False evict_full) = None
   \<and> sNextEvict after_evict_request = 1
   \<and> sTexInited after_evict_request ! 0 = True
   \<and> sCachedSpecies after_evict_request ! 0 = 1
   \<and> sSpriteTex after_evict_request ! 0 = sSpriteTex evict_full ! 0
   \<and> find_empty after_evict_request = None
   \<and> find_hit after_evict_request (cache_key 10 False) = None
   \<and> fst (findOrDecode rom_evict firered_profile frame_zero 1 False after_evict_request) = Some 0"
proof -
  have e: "find_empty evict_full = None"
    using evict_full_all by (simp add: find_empty_None)
  have h: "find_hit evict_full (cache_key 10 False) = None"
    using evict_full_miss(2) by (simp add: find_hit_None)
  have d: "fst (decodeSpriteSlot rom_evict firered_profile frame_zero 10 0 False
                  (evict_full\<lparr>sNextEvict := 1\<rparr>)) = 0"
    using decodeSpriteSlot_ok_iff [of rom_evict firered_profile frame_zero 10 0 False
        "evict_full\<lparr>sNextEvict := 1\<rparr>"] rom_evict_fails by blast
  have R: "findOrDecode rom_evict firered_profile frame_zero 10 False evict_full
             = (None, evict_full\<lparr>sNextEvict := 1\<rparr>)"
    using d by (simp add: findOrDecode_evict [OF h e] evict_full_cursor decode_into_fail)
  have a: "after_evict_request = evict_full\<lparr>sNextEvict := 1\<rparr>"
    by (simp add: after_evict_request_def R)
  have r: "fst (findOrDecode rom_evict firered_profile frame_zero 10 False evict_full) = None"
    by (simp add: R)
  have c: "sNextEvict after_evict_request = 1" by (simp add: a)
  have f0: "sTexInited after_evict_request ! 0 = True" by (simp add: a evict_full_facts(2))
  have k0: "sCachedSpecies after_evict_request ! 0 = 1" by (simp add: a evict_full_facts(3))
  have t0: "sSpriteTex after_evict_request ! 0 = sSpriteTex evict_full ! 0" by (simp add: a)
  have e': "find_empty after_evict_request = None"
    by (simp add: a find_empty_def evict_full_facts(2) upt_0_8)
  have h': "find_hit after_evict_request (cache_key 10 False) = None"
    by (simp add: a find_hit_def evict_full_facts(2) evict_full_facts(3) upt_0_8 cache_key_def)
  have hit: "fst (findOrDecode rom_evict firered_profile frame_zero 1 False after_evict_request)
               = Some 0"
    by (simp add: a findOrDecode_def find_hit_def evict_full_facts(2) evict_full_facts(3)
        upt_0_8 cache_key_def)
  show ?thesis
    by (intro conjI) (rule evict_full_facts(1) evict_full_facts(2) evict_full_facts(3)
        r c f0 k0 t0 e' h' hit)+
qed


section \<open>Party record decoder (\<^verbatim>\<open>readSlot\<close>, overlay.c)\<close>










record PokeSlot =
  species :: u16
  exp :: u32
  moves :: "u16 list"
  pp :: "u8 list"
  level :: u8
  nature :: u8
  curHP :: u16
  maxHP :: u16
  atk :: u16
  def :: u16
  spe :: u16
  spa :: u16
  spd :: u16
  ivHP :: u8
  ivAtk :: u8
  ivDef :: u8
  ivSpe :: u8
  ivSpA :: u8
  ivSpD :: u8
  evHP :: u8
  evAtk :: u8
  evDef :: u8
  evSpe :: u8
  evSpA :: u8
  evSpD :: u8
  status :: u32
  nickname :: "u8 list"
  speciesName :: "u8 list"








lemma upt_0_12: "[0..<12] = [0, 1, 2, 3, 4, 5, 6, 7, 8, 9, 10, 11]"
  by (simp add: upt_rec)



























end
